theory Spec2Isabelle
  imports Main "HOL-Library.Sublist" "HOL-Library.Multiset"
begin

section \<open>Platform: strings, numbers, dates, Array.prototype.sort\<close>

text \<open>
  The script \<^verbatim>\<open>scripts/post-daily-events.ts\<close> is embedded function by function.
  Conventions of the embedding:
  \<^item> a JavaScript string is a \<^typ>\<open>string\<close>; a character outside ASCII is the byte sequence
    that the source file holds for it;
  \<^item> a JavaScript number that holds a count, a day count or an instant in milliseconds is an
    \<^typ>\<open>int\<close>: the lookahead \<^verbatim>\<open>EVENTS_DAYS_AHEAD\<close> is an integer number of days, as the
    configuration of the specification has it. Rounding and infinities are not part of the
    embedding;
  \<^item> a \<^verbatim>\<open>Date\<close> is its time value, \<^term>\<open>None\<close> for the invalid date, whose time value is
    \<^verbatim>\<open>NaN\<close>: \<^verbatim>\<open>new Date(s)\<close> is invalid for a string that is not a date, and
    \<^verbatim>\<open>new Date(n)\<close> is invalid for a number further than 8.64e15 milliseconds from the
    epoch. \<^verbatim>\<open>Intl.DateTimeFormat.prototype.format\<close> raises \<^verbatim>\<open>RangeError\<close> on an invalid date;
  \<^item> what the script takes from its runtime (date parsing, the three \<^verbatim>\<open>Intl.DateTimeFormat\<close>
    objects, \<^verbatim>\<open>String.prototype.toLowerCase\<close>) is a field of the record \<open>platform\<close>, so every
    theorem holds for any behaviour of these functions;
  \<^item> the clock (\<^verbatim>\<open>Date.now()\<close>, \<^verbatim>\<open>new Date()\<close>) is the explicit argument \<open>now\<close> of the pure
    functions, and is read from the world by the functions that have effects.
\<close>

datatype error =
    ApiError nat string    \<comment> \<open>\<^verbatim>\<open>new Error(`solidarity.tech API error ${status}: ${text}`)\<close>\<close>
  | RangeError             \<comment> \<open>\<^verbatim>\<open>Intl.DateTimeFormat.prototype.format\<close> on an invalid date\<close>
  | Rejected string        \<comment> \<open>a rejected promise of \<^verbatim>\<open>fetch\<close>, \<^verbatim>\<open>response.json\<close> or \<^verbatim>\<open>chat.postMessage\<close>\<close>

record platform =
  Date_getTime :: "string \<Rightarrow> int option"   \<comment> \<open>\<^verbatim>\<open>new Date(s).getTime()\<close>, \<^term>\<open>None\<close> for \<^verbatim>\<open>NaN\<close>\<close>
  SHORT_WEEKDAY :: "int \<Rightarrow> string"
  SHORT_DATE :: "int \<Rightarrow> string"
  TIME_FMT :: "int \<Rightarrow> string"
  toLowerCase :: "string \<Rightarrow> string"

text \<open>
  A \<^verbatim>\<open>Date\<close> object is its time value. \<^verbatim>\<open>new Date(value)\<close> for a number clips the time
  value: a number of more than 8.64e15 milliseconds in magnitude gives the invalid date.
\<close>

type_synonym date = "int option"

definition new_Date :: "int \<Rightarrow> date" where
  "new_Date tv = (if - 8640000000000000 \<le> tv \<and> tv \<le> 8640000000000000 then Some tv else None)"

definition format :: "(int \<Rightarrow> string) \<Rightarrow> date \<Rightarrow> error + string" where
  "format fmt d = (case d of None \<Rightarrow> Inl RangeError | Some t \<Rightarrow> Inr (fmt t))"

definition digit_char :: "nat \<Rightarrow> char" where
  "digit_char d =
     (if d = 0 then CHR ''0'' else if d = 1 then CHR ''1'' else if d = 2 then CHR ''2''
      else if d = 3 then CHR ''3'' else if d = 4 then CHR ''4'' else if d = 5 then CHR ''5''
      else if d = 6 then CHR ''6'' else if d = 7 then CHR ''7'' else if d = 8 then CHR ''8''
      else CHR ''9'')"

fun digits :: "nat \<Rightarrow> string" where
  "digits n = (if n < 10 then [digit_char n] else digits (n div 10) @ [digit_char (n mod 10)])"

declare digits.simps [simp del]

text \<open>
  The decimal text a template literal puts in place of an integral number of less than
  \<open>10 ^ 21\<close> in magnitude. From there on JavaScript prints a mantissa and an exponent, which
  is outside the embedding; no statement below depends on the digits that are printed.
\<close>

definition String :: "int \<Rightarrow> string" where
  "String i = (if i < 0 then ''-'' @ digits (nat (- i)) else digits (nat i))"

text \<open>Truthiness of a \<^verbatim>\<open>string | null\<close>: \<^verbatim>\<open>null\<close> and the empty string are falsy.\<close>

definition truthy :: "string option \<Rightarrow> bool" where
  "truthy v = (case v of None \<Rightarrow> False | Some s \<Rightarrow> s \<noteq> [])"

definition join :: "string \<Rightarrow> string list \<Rightarrow> string" where
  "join sep xs = (case xs of [] \<Rightarrow> [] | y # ys \<Rightarrow> y @ concat (map (\<lambda>z. sep @ z) ys))"

text \<open>
  The difference of two numbers is \<^verbatim>\<open>NaN\<close> as soon as one of them is.
\<close>

definition minus_number :: "int option \<Rightarrow> int option \<Rightarrow> int option" where
  "minus_number a b =
     (case a of None \<Rightarrow> None | Some x \<Rightarrow> (case b of None \<Rightarrow> None | Some y \<Rightarrow> Some (x - y)))"

text \<open>
  \<^verbatim>\<open>Array.prototype.sort(comparefn)\<close>. ECMAScript reads a \<^verbatim>\<open>NaN\<close> returned by the comparator
  as \<open>+0\<close>, and requires the sort to be stable; for a comparator that is a consistent
  ordering the result is then unique, and it is the one this insertion sort computes
  (elements are inserted from the right, each one in front of the first element that does
  not precede it).
\<close>

definition SortCompare :: "('a \<Rightarrow> 'a \<Rightarrow> int option) \<Rightarrow> 'a \<Rightarrow> 'a \<Rightarrow> int" where
  "SortCompare comparefn x y = (case comparefn x y of None \<Rightarrow> 0 | Some v \<Rightarrow> v)"

fun insert_sorted :: "('a \<Rightarrow> 'a \<Rightarrow> int option) \<Rightarrow> 'a \<Rightarrow> 'a list \<Rightarrow> 'a list" where
  "insert_sorted comparefn x [] = [x]"
| "insert_sorted comparefn x (y # ys) =
     (if SortCompare comparefn x y \<le> 0 then x # y # ys
      else y # insert_sorted comparefn x ys)"

definition Array_sort :: "('a \<Rightarrow> 'a \<Rightarrow> int option) \<Rightarrow> 'a list \<Rightarrow> 'a list" where
  "Array_sort comparefn xs = foldr (insert_sorted comparefn) xs []"


section \<open>Data model\<close>

record ChapterMapping =
  chapterId :: int
  channelId :: string
  name :: string
  pageUrl :: string

record EventSession =
  session_id :: int
  start_time :: string
  end_time :: string
  session_title :: string
  location_name :: "string option"
  location_address :: string

record SolidarityEvent =
  event_id :: int
  title :: string
  event_type :: string
  event_sessions :: "EventSession list"
  event_page_url :: "string option"
  tags :: "string list"


section \<open>Filtering and sorting\<close>

definition filterAndSortEvents ::
  "platform \<Rightarrow> int \<Rightarrow> SolidarityEvent list \<Rightarrow> int \<Rightarrow> SolidarityEvent list" where
  "filterAndSortEvents rt now events daysAhead =
     (let cutoff = now + daysAhead * 24 * 60 * 60 * 1000 in
      Array_sort
        (\<lambda>a b. minus_number
           (case event_sessions a of [] \<Rightarrow> None | s # _ \<Rightarrow> Date_getTime rt (start_time s))
           (case event_sessions b of [] \<Rightarrow> None | s # _ \<Rightarrow> Date_getTime rt (start_time s)))
        (filter (\<lambda>event. length (event_sessions event) > 0)
          (map (\<lambda>event. event\<lparr>event_sessions :=
                  Array_sort
                    (\<lambda>a b. minus_number (Date_getTime rt (start_time a))
                                         (Date_getTime rt (start_time b)))
                    (filter
                      (\<lambda>s. case Date_getTime rt (start_time s) of
                              None \<Rightarrow> False
                            | Some t \<Rightarrow> t \<ge> now \<and> t \<le> cutoff)
                      (event_sessions event))\<rparr>)
            (filter (\<lambda>event. truthy (event_page_url event)
                             \<and> \<not> (''slack-exclude'' \<in> set (tags event)))
               events))))"


section \<open>Formatting helpers\<close>

text \<open>
  The literals of the script outside ASCII, byte for byte as the source file holds them.
  The file holds, in place of each of the characters U+00B7, U+2013, U+2014, U+2192 and of
  the pictographs U+1F4C5, U+1F4CD, U+1F3E2, U+1F4BB and U+1F500, the UTF-8 text of its
  reading in another character set; the constants are named after the characters in this
  order. No statement below depends on these bytes.
\<close>

definition MIDDLE_DOT :: string where
  "MIDDLE_DOT = [CHR 0xC2, CHR 0xAC, CHR 0xE2, CHR 0x88, CHR 0x91]"
definition EN_DASH :: string where
  "EN_DASH = [CHR 0xE2, CHR 0x80, CHR 0x9A, CHR 0xC3, CHR 0x84, CHR 0xC3, CHR 0xAC]"
definition EM_DASH :: string where
  "EM_DASH = [CHR 0xE2, CHR 0x80, CHR 0x9A, CHR 0xC3, CHR 0x84, CHR 0xC3, CHR 0xAE]"
definition CALENDAR :: string where
  "CALENDAR = [CHR 0xEF, CHR 0xA3, CHR 0xBF, CHR 0xC3, CHR 0xBC, CHR 0xC3, CHR 0xAC, CHR 0xC3, CHR 0x96]"
definition ROUND_PUSHPIN :: string where
  "ROUND_PUSHPIN = [CHR 0xEF, CHR 0xA3, CHR 0xBF, CHR 0xC3, CHR 0xBC, CHR 0xC3, CHR 0xAC, CHR 0xC3, CHR 0xA7]"
definition OFFICE_BUILDING :: string where
  "OFFICE_BUILDING = [CHR 0xEF, CHR 0xA3, CHR 0xBF, CHR 0xC3, CHR 0xBC, CHR 0xC3, CHR 0xA8, CHR 0xC2, CHR 0xA2]"
definition PERSONAL_COMPUTER :: string where
  "PERSONAL_COMPUTER = [CHR 0xEF, CHR 0xA3, CHR 0xBF, CHR 0xC3, CHR 0xBC, CHR 0xC3, CHR 0xAD, CHR 0xC2, CHR 0xAA]"
definition TWISTED_ARROWS :: string where
  "TWISTED_ARROWS = [CHR 0xEF, CHR 0xA3, CHR 0xBF, CHR 0xC3, CHR 0xBC, CHR 0xC3, CHR 0xAE, CHR 0xC3, CHR 0x84]"
definition LF :: string where "LF = [CHR 0x0A]"

text \<open>
  An exception runs through a computation: the first failure is the result.
\<close>

definition and_then :: "error + 'a \<Rightarrow> ('a \<Rightarrow> error + 'b) \<Rightarrow> error + 'b" where
  "and_then r f = (case r of Inl e \<Rightarrow> Inl e | Inr v \<Rightarrow> f v)"

fun map_ok :: "('a \<Rightarrow> error + 'b) \<Rightarrow> 'a list \<Rightarrow> error + 'b list" where
  "map_ok f [] = Inr []"
| "map_ok f (x # xs) = and_then (f x) (\<lambda>y. and_then (map_ok f xs) (\<lambda>ys. Inr (y # ys)))"

text \<open>
  \<^verbatim>\<open>startTime.replace(/\s+\w+$/, "")\<close>. The class \<^verbatim>\<open>\w\<close> is the ASCII letters, the digits and
  the underscore; the class \<^verbatim>\<open>\s\<close> is the white space and line terminators of ECMAScript,
  here by their UTF-8 bytes. The expression matches at the leftmost position from which
  white space and then word characters reach the end of the text, so a match removes the
  last run of word characters and all the white space in front of it; a text that does
  not end so is returned as it is. \<open>drop_white_space\<close> works on the reversed text.
\<close>

definition word_char :: "char \<Rightarrow> bool" where
  "word_char c =
     (c \<in> set ''ABCDEFGHIJKLMNOPQRSTUVWXYZabcdefghijklmnopqrstuvwxyz0123456789_'')"

definition white_space_1 :: "char \<Rightarrow> bool" where
  "white_space_1 c = (c \<in> set [CHR 0x09, CHR 0x0A, CHR 0x0B, CHR 0x0C, CHR 0x0D, CHR 0x20])"

definition white_space_2 :: "char \<Rightarrow> char \<Rightarrow> bool" where
  "white_space_2 b c = (b = CHR 0xC2 \<and> c = CHR 0xA0)"

definition white_space_3 :: "char \<Rightarrow> char \<Rightarrow> char \<Rightarrow> bool" where
  "white_space_3 a b c =
     ((a = CHR 0xE1 \<and> b = CHR 0x9A \<and> c = CHR 0x80)
      \<or> (a = CHR 0xE2 \<and> b = CHR 0x80
          \<and> c \<in> set [CHR 0x80, CHR 0x81, CHR 0x82, CHR 0x83, CHR 0x84, CHR 0x85, CHR 0x86,
                       CHR 0x87, CHR 0x88, CHR 0x89, CHR 0x8A, CHR 0xA8, CHR 0xA9, CHR 0xAF])
      \<or> (a = CHR 0xE2 \<and> b = CHR 0x81 \<and> c = CHR 0x9F)
      \<or> (a = CHR 0xE3 \<and> b = CHR 0x80 \<and> c = CHR 0x80)
      \<or> (a = CHR 0xEF \<and> b = CHR 0xBB \<and> c = CHR 0xBF))"

fun drop_white_space :: "string \<Rightarrow> string" where
  "drop_white_space (c # b # a # cs) =
     (if white_space_1 c then drop_white_space (b # a # cs)
      else if white_space_2 b c then drop_white_space (a # cs)
      else if white_space_3 a b c then drop_white_space cs
      else c # b # a # cs)"
| "drop_white_space [c, b] =
     (if white_space_1 c then drop_white_space [b]
      else if white_space_2 b c then []
      else [c, b])"
| "drop_white_space [c] = (if white_space_1 c then [] else [c])"
| "drop_white_space [] = []"

definition replace_zone :: "string \<Rightarrow> string" where
  "replace_zone s =
     (let r = rev s;
          word = takeWhile word_char r;
          front = dropWhile word_char r;
          kept = drop_white_space front
      in if word = [] \<or> kept = front then s else rev kept)"

definition formatDateRange :: "platform \<Rightarrow> date \<Rightarrow> date \<Rightarrow> error + string" where
  "formatDateRange rt startDate endDate =
     and_then (format (SHORT_WEEKDAY rt) startDate) (\<lambda>weekday.
     and_then (format (SHORT_DATE rt) startDate) (\<lambda>date.
     and_then (format (TIME_FMT rt) startDate) (\<lambda>startTime.
     and_then (format (TIME_FMT rt) endDate) (\<lambda>endTime.
       let startTimeShort = replace_zone startTime in
       Inr (weekday @ '', '' @ date @ '' '' @ MIDDLE_DOT @ '' '' @ startTimeShort
            @ EN_DASH @ endTime)))))"

text \<open>
  The argument \<open>now\<close> is a \<^verbatim>\<open>Date\<close>; \<^verbatim>\<open>now.getTime()\<close> is its time value, and a sum with
  \<^verbatim>\<open>NaN\<close> is \<^verbatim>\<open>NaN\<close>. The template literal formats \<open>now\<close> first and the end of the range
  second, and each of the two calls of \<^verbatim>\<open>format\<close> raises \<^verbatim>\<open>RangeError\<close> on an invalid date.
\<close>

definition formatHeaderDateRange :: "platform \<Rightarrow> date \<Rightarrow> int \<Rightarrow> error + string" where
  "formatHeaderDateRange rt now daysAhead =
     (let end_date = (case now of
                        None \<Rightarrow> None
                      | Some tv \<Rightarrow> new_Date (tv + daysAhead * 24 * 60 * 60 * 1000))
      in and_then (format (SHORT_DATE rt) now) (\<lambda>range_start.
         and_then (format (SHORT_DATE rt) end_date) (\<lambda>range_end.
           Inr (range_start @ '' '' @ EN_DASH @ '' '' @ range_end))))"

definition eventTypeLabel :: "string \<Rightarrow> string" where
  "eventTypeLabel eventType =
     (if eventType = ''in_person'' \<or> eventType = ''in-person'' then OFFICE_BUILDING @ '' In Person''
      else if eventType = ''virtual'' \<or> eventType = ''online'' then PERSONAL_COMPUTER @ '' Virtual''
      else if eventType = ''hybrid'' then TWISTED_ARROWS @ '' Hybrid''
      else [])"


section \<open>Block Kit builder\<close>

datatype text_object =
    plain_text string bool    \<comment> \<open>\<^verbatim>\<open>{type: "plain_text", text, emoji}\<close>\<close>
  | mrkdwn string             \<comment> \<open>\<^verbatim>\<open>{type: "mrkdwn", text}\<close>\<close>

datatype block =
    Header text_object
  | Context "text_object list"
  | Section text_object
  | Divider

definition MAX_GROUPS :: nat where
  "MAX_GROUPS = 23"

definition headerBlock :: "string \<Rightarrow> block" where
  "headerBlock chapterName =
     Header (plain_text (CALENDAR @ '' Upcoming Events '' @ EM_DASH @ '' '' @ chapterName) True)"

definition subtitleBlock :: "string \<Rightarrow> string \<Rightarrow> int \<Rightarrow> block" where
  "subtitleBlock dateRange chapterUrl daysAhead =
     Context [mrkdwn (''Next '' @ String daysAhead @ '' days '' @ MIDDLE_DOT @ '' '' @ dateRange
                      @ '' '' @ MIDDLE_DOT @ '' <'' @ chapterUrl @ ''|All Events>'')]"

text \<open>
  The function given to \<^verbatim>\<open>event.event_sessions.map\<close>. The field \<^verbatim>\<open>location_address\<close> is a
  string and \<^verbatim>\<open>location_name\<close> a string or \<^verbatim>\<open>null\<close>; \<^verbatim>\<open>a || b || undefined\<close> is the first
  of the two that is truthy.
\<close>

definition sessionLine :: "platform \<Rightarrow> string \<Rightarrow> bool \<Rightarrow> EventSession \<Rightarrow> error + string" where
  "sessionLine rt typeLabel isVirtual session =
     (let startDate = Date_getTime rt (start_time session);
          endDate = Date_getTime rt (end_time session)
      in and_then (formatDateRange rt startDate endDate) (\<lambda>timeStr.
           let location = (if location_address session \<noteq> [] then Some (location_address session)
                           else if truthy (location_name session) then location_name session
                           else None);
               line = CALENDAR @ '' *'' @ timeStr @ ''*'';
               line = (case location of
                         None \<Rightarrow> line
                       | Some l \<Rightarrow>
                           if truthy location \<and> \<not> isVirtual
                           then line @ ''   '' @ ROUND_PUSHPIN @ '' _'' @ l @ ''_''
                           else line);
               line = (if typeLabel \<noteq> [] then line @ ''   '' @ typeLabel else line)
           in Inr line))"

text \<open>
  The body of the loop over the visible events, up to the section it builds. The field
  \<^verbatim>\<open>event_type\<close> is a string, so \<^verbatim>\<open>event.event_type?.toLowerCase() ?? ""\<close> is its lower-case
  form; a page URL that is \<^verbatim>\<open>null\<close> is printed as \<^verbatim>\<open>null\<close> by the template literal.
\<close>

definition sectionBlock :: "platform \<Rightarrow> SolidarityEvent \<Rightarrow> error + block" where
  "sectionBlock rt event =
     (let titleText = ''*<'' @ (case event_page_url event of None \<Rightarrow> ''null'' | Some u \<Rightarrow> u)
                      @ ''|'' @ title event @ ''>*'';
          normalizedType = toLowerCase rt (event_type event);
          typeLabel = eventTypeLabel normalizedType;
          isVirtual = (normalizedType = ''virtual'' \<or> normalizedType = ''online'')
      in and_then (map_ok (sessionLine rt typeLabel isVirtual) (event_sessions event))
           (\<lambda>sessionLines.
              Inr (Section (mrkdwn (titleText @ LF @ join LF sessionLines)))))"

fun for_visibleEvents :: "platform \<Rightarrow> SolidarityEvent list \<Rightarrow> block list \<Rightarrow> error + block list" where
  "for_visibleEvents rt [] eventBlocks = Inr eventBlocks"
| "for_visibleEvents rt (event # rest) eventBlocks =
     and_then (sectionBlock rt event) (\<lambda>section_block.
       for_visibleEvents rt rest (eventBlocks @ [section_block, Divider]))"

text \<open>
  \<^verbatim>\<open>buildBlocks\<close> reads the clock: \<open>now\<close> is the reading, and \<^verbatim>\<open>new Date()\<close> is the
  \<^verbatim>\<open>Date\<close> of this reading. The date range of the subtitle is formatted first, before the
  test for an empty list, so its \<^verbatim>\<open>RangeError\<close> leaves the function whatever the events.
\<close>

definition buildBlocks ::
  "platform \<Rightarrow> int \<Rightarrow> string \<Rightarrow> string \<Rightarrow> SolidarityEvent list \<Rightarrow> int \<Rightarrow> error + block list" where
  "buildBlocks rt now chapterName chapterUrl events daysAhead =
     and_then (formatHeaderDateRange rt (new_Date now) daysAhead) (\<lambda>dateRange.
      if length events = 0
      then Inr [headerBlock chapterName,
                subtitleBlock dateRange chapterUrl daysAhead,
                Section (mrkdwn (''No upcoming events in the next '' @ String daysAhead
                                 @ '' days.''))]
      else
        let overflow = (if length events > MAX_GROUPS then length events - MAX_GROUPS else 0);
            visibleEvents = (if overflow > 0 then take MAX_GROUPS events else events)
        in and_then (for_visibleEvents rt visibleEvents []) (\<lambda>eventBlocks.
             let eventBlocks =
                   (if length eventBlocks > 0 \<and> last eventBlocks = Divider
                    then butlast eventBlocks else eventBlocks);
                 eventBlocks =
                   (if overflow > 0
                    then eventBlocks @
                         [Context [mrkdwn (''_+'' @ String (int overflow) @ '' more event''
                                           @ (if overflow = 1 then [] else ''s'')
                                           @ '' later this week not shown._'')]]
                    else eventBlocks)
             in Inr ([headerBlock chapterName, subtitleBlock dateRange chapterUrl daysAhead]
                     @ eventBlocks)))"


section \<open>Main\<close>



section \<open>The world of the script\<close>

text \<open>
  What the script does to its surroundings is kept in a record that the functions with
  effects take and return: the HTTP requests issued, the messages posted, the lines written
  to the console and the number of times the clock was read. What the surroundings answer
  is a field of the record \<open>environment\<close>: the response to a request may depend on the
  requests issued before it, the outcome of posting a message on the messages posted
  before it, and the clock gives an instant for every reading. The environment also holds
  the constants that the script reads from \<^verbatim>\<open>process.env\<close> and the outcome of
  \<^verbatim>\<open>JSON.parse\<close> on the chapter mapping. A function that may run forever returns
  \<^term>\<open>None\<close> when it does.
\<close>

record request =
  url :: string
  headers :: "(string \<times> string) list"

datatype response =
  Response (ok: bool) (status: nat) (body_text: string)
    (json_data: "error + SolidarityEvent list option")
    \<comment> \<open>\<^verbatim>\<open>response.ok\<close>, \<^verbatim>\<open>response.status\<close>, \<^verbatim>\<open>await response.text()\<close> and the field \<^verbatim>\<open>data\<close> of
       \<^verbatim>\<open>await response.json()\<close>: an error when the body is not JSON, \<^term>\<open>None\<close> when the
       field is \<^verbatim>\<open>null\<close> or missing\<close>

record message =
  channel :: string
  fallback :: string    \<comment> \<open>the field \<^verbatim>\<open>text\<close>\<close>
  blocks :: "block list"

datatype console_line =
    Log string                 \<comment> \<open>\<^verbatim>\<open>console.log(text)\<close>\<close>
  | Err string "error option"  \<comment> \<open>\<^verbatim>\<open>console.error(text)\<close>, \<^verbatim>\<open>console.error(text, err)\<close>\<close>

datatype parsed =
    SyntaxError                     \<comment> \<open>\<^verbatim>\<open>JSON.parse\<close> raises\<close>
  | NotAnArray
  | JsonArray "ChapterMapping list"

record world =
  requests :: "request list"
  posted :: "message list"
  console :: "console_line list"
  clock_reads :: nat

record environment =
  runtime :: platform
  SOLIDARITY_TECH_API_KEY :: string
  SLACK_BOT_TOKEN :: string
  EVENTS_DAYS_AHEAD :: int
  CHAPTER_CHANNEL_MAPPING_RAW :: string
  JSON_parse :: "string \<Rightarrow> parsed"
  fetch :: "request list \<Rightarrow> request \<Rightarrow> error + response"
  chat_postMessage :: "message list \<Rightarrow> message \<Rightarrow> error option"
  clock :: "nat \<Rightarrow> int"





section \<open>API helpers\<close>

text \<open>
  The request for one page: the URL with its four search parameters, and the two headers.
\<close>

definition events_request :: "environment \<Rightarrow> int \<Rightarrow> nat \<Rightarrow> nat \<Rightarrow> request" where
  "events_request env chapterId' limit page =
     \<lparr> url = ''https://api.solidarity.tech/v1/events?scope_id='' @ String chapterId'
             @ ''&scope_type=Chapter&_limit='' @ String (int limit)
             @ ''&_page='' @ String (int page),
       headers = [(''Authorization'', ''Bearer '' @ SOLIDARITY_TECH_API_KEY env),
                  (''Accept'', ''application/json'')] \<rparr>"

text \<open>The loop \<^verbatim>\<open>while (true)\<close> of \<^verbatim>\<open>fetchAllEvents\<close>, from the page \<open>page\<close> on.\<close>

partial_function (option) fetch_pages ::
  "environment \<Rightarrow> int \<Rightarrow> nat \<Rightarrow> SolidarityEvent list \<Rightarrow> world
     \<Rightarrow> ((error + SolidarityEvent list) \<times> world) option" where
  "fetch_pages env chapterId' page allEvents w =
     (let limit = 100;
          req = events_request env chapterId' limit page;
          w' = w\<lparr>requests := requests w @ [req]\<rparr>
      in case fetch env (requests w) req of
           Inl e \<Rightarrow> Some (Inl e, w')
         | Inr response \<Rightarrow>
             if \<not> ok response
             then Some (Inl (ApiError (status response) (body_text response)), w')
             else (case json_data response of
                     Inl e \<Rightarrow> Some (Inl e, w')
                   | Inr data \<Rightarrow>
                       let events = (case data of None \<Rightarrow> [] | Some evs \<Rightarrow> evs);
                           allEvents' = allEvents @ events
                       in if length events < limit then Some (Inr allEvents', w')
                          else fetch_pages env chapterId' (page + 1) allEvents' w'))"

declare fetch_pages.simps [code]

definition fetchAllEvents ::
  "environment \<Rightarrow> int \<Rightarrow> world \<Rightarrow> ((error + SolidarityEvent list) \<times> world) option" where
  "fetchAllEvents env chapterId' w = fetch_pages env chapterId' 1 [] w"






section \<open>Filtering and sorting, with arrays and objects in a store\<close>

text \<open>
  In the script an array and an event object are references, and \<^verbatim>\<open>Array.prototype.sort\<close>
  writes into the array it is called on. To tell what a call writes and what it shares,
  \<^verbatim>\<open>filterAndSortEvents\<close> is embedded a second time over a store of objects: a reference is
  an index of the store, an allocation appends an object, and a write replaces the object
  at a reference. Arrays of events hold references to event objects; an event object
  holds references to its array of sessions and to its array of tags. Session objects are
  never written and are kept as values. A read of a reference that is not in the store, or
  that holds an object of another kind, has no result (the types of the script exclude it).
\<close>

type_synonym ref = nat

record EventObject =
  obj_id :: int
  obj_title :: string
  obj_event_type :: string
  obj_event_sessions :: ref
  obj_event_page_url :: "string option"
  obj_tags :: ref

datatype object =
    EventArray "ref list"
  | Event EventObject
  | SessionArray "EventSession list"
  | StringArray "string list"

type_synonym store = "object list"

definition alloc :: "object \<Rightarrow> store \<Rightarrow> ref \<times> store" where
  "alloc obj h = (length h, h @ [obj])"

definition lookup :: "store \<Rightarrow> ref \<Rightarrow> object option" where
  "lookup h r = (if r < length h then Some (h ! r) else None)"

definition event_array :: "store \<Rightarrow> ref \<Rightarrow> ref list option" where
  "event_array h r = (case lookup h r of Some (EventArray rs) \<Rightarrow> Some rs | _ \<Rightarrow> None)"

definition event_object :: "store \<Rightarrow> ref \<Rightarrow> EventObject option" where
  "event_object h r = (case lookup h r of Some (Event ev) \<Rightarrow> Some ev | _ \<Rightarrow> None)"

definition session_array :: "store \<Rightarrow> ref \<Rightarrow> EventSession list option" where
  "session_array h r = (case lookup h r of Some (SessionArray ss) \<Rightarrow> Some ss | _ \<Rightarrow> None)"

definition string_array :: "store \<Rightarrow> ref \<Rightarrow> string list option" where
  "string_array h r = (case lookup h r of Some (StringArray ts) \<Rightarrow> Some ts | _ \<Rightarrow> None)"

text \<open>
  \<^verbatim>\<open>Array.prototype.filter\<close> and \<^verbatim>\<open>Array.prototype.map\<close> over the elements of an array, for a
  callback that reads the store and for a callback that allocates in it. Each of the two
  methods then allocates the array of its results.
\<close>

fun Array_filter :: "(ref \<Rightarrow> bool option) \<Rightarrow> ref list \<Rightarrow> ref list option" where
  "Array_filter p [] = Some []"
| "Array_filter p (x # xs) =
     (case p x of
        None \<Rightarrow> None
      | Some b \<Rightarrow>
          (case Array_filter p xs of
             None \<Rightarrow> None
           | Some ys \<Rightarrow> Some (if b then x # ys else ys)))"

fun Array_map ::
  "(ref \<Rightarrow> store \<Rightarrow> (ref \<times> store) option) \<Rightarrow> ref list \<Rightarrow> store \<Rightarrow> (ref list \<times> store) option" where
  "Array_map f [] h = Some ([], h)"
| "Array_map f (x # xs) h =
     (case f x h of
        None \<Rightarrow> None
      | Some (y, h') \<Rightarrow>
          (case Array_map f xs h' of
             None \<Rightarrow> None
           | Some (ys, h'') \<Rightarrow> Some (y # ys, h'')))"

text \<open>
  The three callbacks of \<^verbatim>\<open>filterAndSortEvents\<close>. The first reads the tags only when the page
  URL is truthy. The second builds the copy of an event: \<^verbatim>\<open>filter\<close> allocates the array of
  the sessions in the window, \<^verbatim>\<open>sort\<close> writes into that array, and the object literal with
  the spread allocates an object that has the fields of the event, the reference to its
  tags among them, and the new array of sessions.
\<close>

definition has_page_and_no_exclusion :: "store \<Rightarrow> ref \<Rightarrow> bool option" where
  "has_page_and_no_exclusion h r =
     (case event_object h r of
        None \<Rightarrow> None
      | Some event \<Rightarrow>
          if truthy (obj_event_page_url event)
          then (case string_array h (obj_tags event) of
                  None \<Rightarrow> None
                | Some ts \<Rightarrow> Some (\<not> (''slack-exclude'' \<in> set ts)))
          else Some False)"

definition sort_sessions :: "platform \<Rightarrow> ref \<Rightarrow> store \<Rightarrow> store option" where
  "sort_sessions rt r h =
     (case session_array h r of
        None \<Rightarrow> None
      | Some ss \<Rightarrow>
          Some (h[r := SessionArray
                  (Array_sort (\<lambda>a b. minus_number (Date_getTime rt (start_time a))
                                                    (Date_getTime rt (start_time b))) ss)]))"

definition copy_event :: "platform \<Rightarrow> int \<Rightarrow> int \<Rightarrow> ref \<Rightarrow> store \<Rightarrow> (ref \<times> store) option" where
  "copy_event rt now cutoff r h =
     (case event_object h r of
        None \<Rightarrow> None
      | Some event \<Rightarrow>
          (case session_array h (obj_event_sessions event) of
             None \<Rightarrow> None
           | Some sessions \<Rightarrow>
               let (kept, h1) =
                     alloc (SessionArray
                              (filter (\<lambda>s. case Date_getTime rt (start_time s) of
                                             None \<Rightarrow> False
                                           | Some t \<Rightarrow> t \<ge> now \<and> t \<le> cutoff)
                                 sessions)) h
               in (case sort_sessions rt kept h1 of
                     None \<Rightarrow> None
                   | Some h2 \<Rightarrow> Some (alloc (Event (event\<lparr>obj_event_sessions := kept\<rparr>)) h2))))"

definition has_sessions :: "store \<Rightarrow> ref \<Rightarrow> bool option" where
  "has_sessions h r =
     (case event_object h r of
        None \<Rightarrow> None
      | Some event \<Rightarrow>
          (case session_array h (obj_event_sessions event) of
             None \<Rightarrow> None
           | Some ss \<Rightarrow> Some (length ss > 0)))"

text \<open>
  The start of the first session of the event at a reference, as the comparator of the
  last sort reads it from the store.
\<close>

definition first_start_at :: "platform \<Rightarrow> store \<Rightarrow> ref \<Rightarrow> int option" where
  "first_start_at rt h r =
     (case event_object h r of
        None \<Rightarrow> None
      | Some event \<Rightarrow>
          (case session_array h (obj_event_sessions event) of
             None \<Rightarrow> None
           | Some [] \<Rightarrow> None
           | Some (s # _) \<Rightarrow> Date_getTime rt (start_time s)))"

definition filterAndSortEvents_store ::
  "platform \<Rightarrow> int \<Rightarrow> ref \<Rightarrow> int \<Rightarrow> store \<Rightarrow> (ref \<times> store) option" where
  "filterAndSortEvents_store rt now events daysAhead h =
     (let cutoff = now + daysAhead * 24 * 60 * 60 * 1000 in
      case event_array h events of
        None \<Rightarrow> None
      | Some rs \<Rightarrow>
          (case Array_filter (has_page_and_no_exclusion h) rs of
             None \<Rightarrow> None
           | Some rs1 \<Rightarrow>
               let (a1, h1) = alloc (EventArray rs1) h in
               (case Array_map (copy_event rt now cutoff) rs1 h1 of
                  None \<Rightarrow> None
                | Some (rs2, h2) \<Rightarrow>
                    let (a2, h3) = alloc (EventArray rs2) h2 in
                    (case Array_filter (has_sessions h3) rs2 of
                       None \<Rightarrow> None
                     | Some rs3 \<Rightarrow>
                         let (a3, h4) = alloc (EventArray rs3) h3 in
                         Some (a3,
                               h4[a3 := EventArray
                                    (Array_sort (\<lambda>a b. minus_number (first_start_at rt h4 a)
                                                                      (first_start_at rt h4 b))
                                       rs3)])))))"

section \<open>Vocabulary of the specification: the window filter\<close>

text \<open>
  The predicates below are the words of the specification of the window filter, written
  independently of \<^verbatim>\<open>filterAndSortEvents\<close>. A day is 86400000 milliseconds. An event
  lacks a page URL when the field is \<^verbatim>\<open>null\<close> or the empty string.
\<close>

definition lacks_page_url :: "SolidarityEvent \<Rightarrow> bool" where
  "lacks_page_url e = (event_page_url e = None \<or> event_page_url e = Some [])"

definition carries_exclusion_tag :: "SolidarityEvent \<Rightarrow> bool" where
  "carries_exclusion_tag e = (''slack-exclude'' \<in> set (tags e))"

definition starts_in_window :: "platform \<Rightarrow> int \<Rightarrow> int \<Rightarrow> EventSession \<Rightarrow> bool" where
  "starts_in_window rt now daysAhead s =
     (case Date_getTime rt (start_time s) of
        None \<Rightarrow> False
      | Some t \<Rightarrow> now \<le> t \<and> t \<le> now + daysAhead * 86400000)"

definition has_session_in_window :: "platform \<Rightarrow> int \<Rightarrow> int \<Rightarrow> SolidarityEvent \<Rightarrow> bool" where
  "has_session_in_window rt now daysAhead e =
     (\<exists>s\<in>set (event_sessions e). starts_in_window rt now daysAhead s)"

text \<open>
  \<open>holds_window_of e e'\<close>: the event \<open>e'\<close> is \<open>e\<close> with its sessions replaced by exactly the
  sessions of \<open>e\<close> that start in the window (in any order). An input event is present in an
  output list when the list has such a copy of it.
\<close>

definition holds_window_of ::
  "platform \<Rightarrow> int \<Rightarrow> int \<Rightarrow> SolidarityEvent \<Rightarrow> SolidarityEvent \<Rightarrow> bool" where
  "holds_window_of rt now daysAhead e e' =
     (e' = e\<lparr>event_sessions := event_sessions e'\<rparr>
      \<and> mset (event_sessions e') = mset (filter (starts_in_window rt now daysAhead) (event_sessions e)))"

definition present_in ::
  "platform \<Rightarrow> int \<Rightarrow> int \<Rightarrow> SolidarityEvent list \<Rightarrow> SolidarityEvent \<Rightarrow> bool" where
  "present_in rt now daysAhead out e = (\<exists>e'\<in>set out. holds_window_of rt now daysAhead e e')"

text \<open>
  The start of the first session of an event, as the comparator of the last sort reads it.
\<close>

definition first_start :: "platform \<Rightarrow> SolidarityEvent \<Rightarrow> int option" where
  "first_start rt e =
     (case event_sessions e of [] \<Rightarrow> None | s # _ \<Rightarrow> Date_getTime rt (start_time s))"

text \<open>
  Total readings of the two sort keys (0 where the source has \<^verbatim>\<open>NaN\<close>), the copy of an event
  that holds its sessions of the window in ascending order of start, ties in their
  original order, and the first test of the filter.
\<close>

definition start_ms :: "platform \<Rightarrow> EventSession \<Rightarrow> int" where
  "start_ms rt s = (case Date_getTime rt (start_time s) of None \<Rightarrow> 0 | Some t \<Rightarrow> t)"

definition first_ms :: "platform \<Rightarrow> SolidarityEvent \<Rightarrow> int" where
  "first_ms rt e = (case event_sessions e of [] \<Rightarrow> 0 | s # _ \<Rightarrow> start_ms rt s)"

definition window_copy :: "platform \<Rightarrow> int \<Rightarrow> int \<Rightarrow> SolidarityEvent \<Rightarrow> SolidarityEvent" where
  "window_copy rt now daysAhead e =
     e\<lparr>event_sessions :=
         sort_key (start_ms rt) (filter (starts_in_window rt now daysAhead) (event_sessions e))\<rparr>"

definition eligible :: "SolidarityEvent \<Rightarrow> bool" where
  "eligible e = (\<not> lacks_page_url e \<and> \<not> carries_exclusion_tag e)"


section \<open>Vocabulary of the specification: the block document\<close>

text \<open>
  The date range of the subtitle runs from \<open>now\<close> to \<open>now\<close> plus \<open>daysAhead\<close> days of 24
  hours; it can be formatted when both instants are within the range of \<^verbatim>\<open>Date\<close>, 8.64e15
  milliseconds to either side of the epoch.
\<close>

definition valid_time :: "int \<Rightarrow> bool" where
  "valid_time tv = (\<bar>tv\<bar> \<le> 8640000000000000)"

definition header_dates_valid :: "int \<Rightarrow> int \<Rightarrow> bool" where
  "header_dates_valid now daysAhead =
     (valid_time now \<and> valid_time (now + daysAhead * 86400000))"

definition header_range :: "platform \<Rightarrow> int \<Rightarrow> int \<Rightarrow> string" where
  "header_range rt now daysAhead =
     SHORT_DATE rt now @ '' '' @ EN_DASH @ '' '' @ SHORT_DATE rt (now + daysAhead * 86400000)"

text \<open>
  A session can be formatted when both of its dates are dates; an event when all of its
  sessions can. \<^verbatim>\<open>buildBlocks\<close> returns a document exactly when the date range of the
  subtitle and every visible event can be formatted, and raises \<^verbatim>\<open>RangeError\<close> otherwise.
\<close>

definition formattable :: "platform \<Rightarrow> SolidarityEvent \<Rightarrow> bool" where
  "formattable rt e =
     (\<forall>s\<in>set (event_sessions e).
        Date_getTime rt (start_time s) \<noteq> None \<and> Date_getTime rt (end_time s) \<noteq> None)"

definition is_section :: "block \<Rightarrow> bool" where
  "is_section b = (case b of Section _ \<Rightarrow> True | _ \<Rightarrow> False)"

definition is_context :: "block \<Rightarrow> bool" where
  "is_context b = (case b of Context _ \<Rightarrow> True | _ \<Rightarrow> False)"

text \<open>
  The overflow notice for \<open>k\<close> events that are not shown: singular wording for one event,
  plural wording otherwise.
\<close>

definition overflow_notice :: "nat \<Rightarrow> block" where
  "overflow_notice k =
     Context [mrkdwn (if k = 1 then ''_+1 more event later this week not shown._''
                      else ''_+'' @ String (int k) @ '' more events later this week not shown._'')]"

text \<open>Sections, each one followed by a divider.\<close>

definition with_dividers :: "block list \<Rightarrow> block list" where
  "with_dividers secs = concat (map (\<lambda>s. [s, Divider]) secs)"

text \<open>
  The words of the specification for a session line. The location of a session is its
  street address, or else its venue name, when one of them is present (not empty). The
  known type tags are \<^verbatim>\<open>in_person\<close>, \<^verbatim>\<open>in-person\<close>, \<^verbatim>\<open>virtual\<close>, \<^verbatim>\<open>online\<close> and \<^verbatim>\<open>hybrid\<close>;
  the type of an event is read in lower case.
\<close>

definition preferred_location :: "EventSession \<Rightarrow> string option" where
  "preferred_location s =
     (if location_address s \<noteq> [] then Some (location_address s)
      else (case location_name s of
              None \<Rightarrow> None
            | Some n \<Rightarrow> if n = [] then None else Some n))"

definition virtual_type :: "string \<Rightarrow> bool" where
  "virtual_type t = (t \<in> set [''virtual'', ''online''])"

definition known_type_label :: "string \<Rightarrow> string option" where
  "known_type_label t =
     (if t \<in> set [''in_person'', ''in-person''] then Some (OFFICE_BUILDING @ '' In Person'')
      else if t \<in> set [''virtual'', ''online''] then Some (PERSONAL_COMPUTER @ '' Virtual'')
      else if t = ''hybrid'' then Some (TWISTED_ARROWS @ '' Hybrid'')
      else None)"

definition location_segment :: "platform \<Rightarrow> SolidarityEvent \<Rightarrow> EventSession \<Rightarrow> string" where
  "location_segment rt e s =
     (case preferred_location s of
        None \<Rightarrow> []
      | Some l \<Rightarrow>
          if virtual_type (toLowerCase rt (event_type e)) then []
          else ''   '' @ ROUND_PUSHPIN @ '' _'' @ l @ ''_'')"

definition label_segment :: "platform \<Rightarrow> SolidarityEvent \<Rightarrow> string" where
  "label_segment rt e =
     (case known_type_label (toLowerCase rt (event_type e)) of
        None \<Rightarrow> []
      | Some l \<Rightarrow> ''   '' @ l)"

definition title_link :: "SolidarityEvent \<Rightarrow> string" where
  "title_link e =
     ''*<'' @ (case event_page_url e of None \<Rightarrow> ''null'' | Some u \<Rightarrow> u) @ ''|'' @ title e @ ''>*''"


section \<open>Vocabulary of the specification: the pages of the events API\<close>

text \<open>
  The events of a page response: a response that was received, is a success and carries
  JSON is a page, and its events are the field \<^verbatim>\<open>data\<close> (none when the field is missing).
  \<open>page_requests env c n\<close> are the requests for the pages 1 to \<open>n\<close> of chapter \<open>c\<close>, and
  \<open>page_response env c w p\<close> is what the API answers to the request for page \<open>p\<close> when the
  pages before it have been requested in order, starting in the world \<open>w\<close>.
\<close>

definition page_events :: "error + response \<Rightarrow> SolidarityEvent list option" where
  "page_events r =
     (case r of
        Inl _ \<Rightarrow> None
      | Inr resp \<Rightarrow>
          if ok resp
          then (case json_data resp of
                  Inl _ \<Rightarrow> None
                | Inr d \<Rightarrow> Some (case d of None \<Rightarrow> [] | Some evs \<Rightarrow> evs))
          else None)"

definition page_requests :: "environment \<Rightarrow> int \<Rightarrow> nat \<Rightarrow> request list" where
  "page_requests env c n = map (events_request env c 100) [1..<Suc n]"

definition page_response :: "environment \<Rightarrow> int \<Rightarrow> world \<Rightarrow> nat \<Rightarrow> error + response" where
  "page_response env c w p =
     fetch env (requests w @ page_requests env c (p - 1)) (events_request env c 100 p)"


section \<open>Vocabulary of the specification: the driver\<close>


definition fetching_line :: "ChapterMapping \<Rightarrow> console_line" where
  "fetching_line m =
     Log (''Fetching events for chapter: '' @ name m @ '' ('' @ String (chapterId m) @ '')'')"

definition failure_line :: "ChapterMapping \<Rightarrow> error \<Rightarrow> console_line" where
  "failure_line m e = Err (''Failed to post events for chapter '' @ name m @ '':'') (Some e)"

definition is_fetching_line :: "console_line \<Rightarrow> bool" where
  "is_fetching_line l =
     (case l of Log s \<Rightarrow> prefix ''Fetching events for chapter: '' s | Err _ _ \<Rightarrow> False)"

definition is_failure_line :: "console_line \<Rightarrow> bool" where
  "is_failure_line l = (case l of Log _ \<Rightarrow> False | Err _ e \<Rightarrow> e \<noteq> None)"




section \<open>Vocabulary of the specification: what a call writes and what it shares\<close>

text \<open>
  The event that an event object of the store stands for, and the list of events that an
  array of the store stands for.
\<close>

definition event_at :: "store \<Rightarrow> ref \<Rightarrow> SolidarityEvent option" where
  "event_at h r =
     (case event_object h r of
        None \<Rightarrow> None
      | Some ev \<Rightarrow>
          (case session_array h (obj_event_sessions ev) of
             None \<Rightarrow> None
           | Some ss \<Rightarrow>
               (case string_array h (obj_tags ev) of
                  None \<Rightarrow> None
                | Some ts \<Rightarrow>
                    Some \<lparr> event_id = obj_id ev, title = obj_title ev,
                           event_type = obj_event_type ev, event_sessions = ss,
                           event_page_url = obj_event_page_url ev, tags = ts \<rparr>)))"

definition events_at :: "store \<Rightarrow> ref \<Rightarrow> SolidarityEvent list option" where
  "events_at h r =
     (case event_array h r of None \<Rightarrow> None | Some rs \<Rightarrow> those (map (event_at h) rs))"

text \<open>
  A call that starts in the store \<open>h\<close> and ends in the store \<open>h'\<close> has not written to an
  object of \<open>h\<close> when \<open>h\<close> is an initial part of \<open>h'\<close>; a reference is fresh when it is not a
  reference of \<open>h\<close>. The arrays and event objects that a result is built from are the result
  array, the event objects in it, and the arrays of sessions and of tags of these objects.
\<close>

definition unchanged :: "store \<Rightarrow> store \<Rightarrow> bool" where
  "unchanged h h' = (length h \<le> length h' \<and> (\<forall>a<length h. h' ! a = h ! a))"

definition fresh :: "store \<Rightarrow> ref \<Rightarrow> bool" where
  "fresh h r = (length h \<le> r)"

definition result_events :: "store \<Rightarrow> ref \<Rightarrow> (ref \<times> EventObject) list" where
  "result_events h' r =
     (case event_array h' r of
        None \<Rightarrow> []
      | Some rs \<Rightarrow> concat (map (\<lambda>e. case event_object h' e of None \<Rightarrow> [] | Some ev \<Rightarrow> [(e, ev)]) rs))"

definition built_from :: "store \<Rightarrow> ref \<Rightarrow> ref list" where
  "built_from h' r =
     r # concat (map (\<lambda>(e, ev). [e, obj_event_sessions ev, obj_tags ev]) (result_events h' r))"

text \<open>
  The array of sessions that the copy of an event allocates: the sessions of the window, in
  the order of their start.
\<close>

definition kept_sessions :: "platform \<Rightarrow> int \<Rightarrow> int \<Rightarrow> EventSession list \<Rightarrow> EventSession list" where
  "kept_sessions rt now cutoff ss =
     Array_sort (\<lambda>a b. minus_number (Date_getTime rt (start_time a)) (Date_getTime rt (start_time b)))
       (filter (\<lambda>s. case Date_getTime rt (start_time s) of
                      None \<Rightarrow> False
                    | Some t \<Rightarrow> t \<ge> now \<and> t \<le> cutoff) ss)"

text \<open>
  \<open>copied_at h h' r e\<close>: on the way from the store \<open>h\<close> to the store \<open>h'\<close>, the event at
  \<open>r\<close> was copied to \<open>e\<close>, in a store \<open>h1\<close> in between.
\<close>

definition copied_at ::
  "platform \<Rightarrow> int \<Rightarrow> int \<Rightarrow> store \<Rightarrow> store \<Rightarrow> ref \<Rightarrow> ref \<Rightarrow> bool" where
  "copied_at rt now cutoff h h' r e =
     (\<exists>h1 ev ss. unchanged h h1 \<and> event_object h1 r = Some ev
        \<and> session_array h1 (obj_event_sessions ev) = Some ss
        \<and> e = Suc (length h1)
        \<and> unchanged (h1 @ [SessionArray (kept_sessions rt now cutoff ss),
                            Event (ev\<lparr>obj_event_sessions := length h1\<rparr>)]) h')"

section \<open>Sample data\<close>

text \<open>
  A platform and a few events on which the functions are evaluated. The instants are the
  epoch milliseconds of the ISO 8601 strings beside them; the formatters give the texts of
  the \<^verbatim>\<open>en-US\<close> formatters of the script in the zone \<^verbatim>\<open>America/New_York\<close>
  (1793707200000 is 2026-11-03T12:00:00Z).
\<close>

definition sample_times :: "(string \<times> int) list" where
  "sample_times =
     [(''2026-11-01T10:00:00.000-05:00'', 1793545200000),
      (''2026-11-01T11:00:00.000-05:00'', 1793548800000),
      (''2026-11-04T18:00:00.000-05:00'', 1793833200000),
      (''2026-11-04T20:00:00.000-05:00'', 1793840400000),
      (''2026-11-06T10:00:00.000-05:00'', 1793977200000),
      (''2026-11-06T11:30:00.000-05:00'', 1793982600000),
      (''2026-12-25T10:00:00.000-05:00'', 1798210800000)]"

text \<open>
  The three formatters for the instants of the four weeks from Monday 2 November 2026,
  00:00 Eastern Standard Time (1793595600000), on; they print nothing for other instants.
\<close>

definition in_november :: "int \<Rightarrow> bool" where
  "in_november t = (1793595600000 \<le> t \<and> t < 1793595600000 + 28 * 86400000)"

definition eastern_day :: "int \<Rightarrow> nat" where
  "eastern_day t = nat ((t - 1793595600000) div 86400000)"

definition eastern_minute :: "int \<Rightarrow> nat" where
  "eastern_minute t = nat (((t - 1793595600000) mod 86400000) div 60000)"

definition november_weekday :: "int \<Rightarrow> string" where
  "november_weekday t =
     (if in_november t
      then [''Mon'', ''Tue'', ''Wed'', ''Thu'', ''Fri'', ''Sat'', ''Sun''] ! (eastern_day t mod 7)
      else [])"

definition november_date :: "int \<Rightarrow> string" where
  "november_date t = (if in_november t then ''Nov '' @ digits (2 + eastern_day t) else [])"

definition november_time :: "int \<Rightarrow> string" where
  "november_time t =
     (if in_november t
      then (let h = eastern_minute t div 60; m = eastern_minute t mod 60
            in digits (if h mod 12 = 0 then 12 else h mod 12) @ '':''
               @ digits (m div 10) @ digits (m mod 10)
               @ (if h < 12 then '' AM'' else '' PM'') @ '' EST'')
      else [])"

definition ascii_lower :: "char \<Rightarrow> char" where
  "ascii_lower c =
     (case map_of (zip ''ABCDEFGHIJKLMNOPQRSTUVWXYZ'' ''abcdefghijklmnopqrstuvwxyz'') c of
        None \<Rightarrow> c | Some l \<Rightarrow> l)"

definition sample_platform :: platform where
  "sample_platform = \<lparr>
     Date_getTime = map_of sample_times,
     SHORT_WEEKDAY = november_weekday,
     SHORT_DATE = november_date,
     TIME_FMT = november_time,
     toLowerCase = map ascii_lower \<rparr>"

definition session :: "int \<Rightarrow> string \<Rightarrow> string \<Rightarrow> EventSession" where
  "session i s e = \<lparr> session_id = i, start_time = s, end_time = e, session_title = ''Session'',
     location_name = Some ''Union Hall'', location_address = ''12 Main St'' \<rparr>"

definition past :: EventSession where
  "past = session 1 ''2026-11-01T10:00:00.000-05:00'' ''2026-11-01T11:00:00.000-05:00''"

definition wed :: EventSession where
  "wed = session 2 ''2026-11-04T18:00:00.000-05:00'' ''2026-11-04T20:00:00.000-05:00''"

definition fri :: EventSession where
  "fri = session 3 ''2026-11-06T10:00:00.000-05:00'' ''2026-11-06T11:30:00.000-05:00''"

definition undated :: EventSession where
  "undated = session 4 ''soon'' ''later''"

definition canvass :: SolidarityEvent where
  "canvass = \<lparr> event_id = 10, title = ''Canvass'', event_type = ''in_person'',
     event_sessions = [fri, past, wed], event_page_url = Some ''https://example.org/canvass'',
     tags = [''public''] \<rparr>"

definition phonebank :: SolidarityEvent where
  "phonebank = \<lparr> event_id = 11, title = ''Phone bank'', event_type = ''Virtual'',
     event_sessions = [wed], event_page_url = Some ''https://example.org/phonebank'',
     tags = [] \<rparr>"

definition internal :: SolidarityEvent where
  "internal = \<lparr> event_id = 12, title = ''Steering'', event_type = ''hybrid'',
     event_sessions = [wed], event_page_url = Some ''https://example.org/steering'',
     tags = [''slack-exclude''] \<rparr>"

definition unpublished :: SolidarityEvent where
  "unpublished = \<lparr> event_id = 13, title = ''Draft'', event_type = ''in_person'',
     event_sessions = [fri], event_page_url = None, tags = [] \<rparr>"

definition finished :: SolidarityEvent where
  "finished = \<lparr> event_id = 14, title = ''Picnic'', event_type = ''in_person'',
     event_sessions = [past, undated], event_page_url = Some ''https://example.org/picnic'',
     tags = [] \<rparr>"

definition sample_events :: "SolidarityEvent list" where
  "sample_events = [canvass, internal, unpublished, finished, phonebank]"

definition sample_now :: int where "sample_now = 1793707200000"

definition sample_filtered :: "SolidarityEvent list" where
  "sample_filtered = [canvass\<lparr>event_sessions := [wed, fri]\<rparr>, phonebank]"



text \<open>
  An environment with three chapters. The API has the five sample events for chapter 1,
  answers 500 for chapter 2, and has exactly one hundred events for chapter 3, so that the
  second page of chapter 3 is empty. Posting to the channel \<^verbatim>\<open>C-closed\<close> fails. The clock
  stands at the sample instant.
\<close>

definition sample_pages :: "(string \<times> response) list" where
  "sample_pages =
     [(''https://api.solidarity.tech/v1/events?scope_id=1&scope_type=Chapter&_limit=100&_page=1'',
       Response True 200 [] (Inr (Some sample_events))),
      (''https://api.solidarity.tech/v1/events?scope_id=2&scope_type=Chapter&_limit=100&_page=1'',
       Response False 500 ''Internal Server Error'' (Inl (Rejected ''Unexpected token'')))  ,
      (''https://api.solidarity.tech/v1/events?scope_id=3&scope_type=Chapter&_limit=100&_page=1'',
       Response True 200 [] (Inr (Some (replicate 100 phonebank)))),
      (''https://api.solidarity.tech/v1/events?scope_id=3&scope_type=Chapter&_limit=100&_page=2'',
       Response True 200 [] (Inr (Some [])))]"

definition sample_mappings :: "ChapterMapping list" where
  "sample_mappings =
     [\<lparr> chapterId = 1, channelId = ''C-metro'', name = ''Metro'',
         pageUrl = ''https://example.org/metro'' \<rparr>,
      \<lparr> chapterId = 2, channelId = ''C-valley'', name = ''Valley'',
         pageUrl = ''https://example.org/valley'' \<rparr>,
      \<lparr> chapterId = 1, channelId = ''C-closed'', name = ''Harbor'',
         pageUrl = ''https://example.org/harbor'' \<rparr>]"

definition sample_environment :: environment where
  "sample_environment = \<lparr>
     runtime = sample_platform,
     SOLIDARITY_TECH_API_KEY = ''key'',
     SLACK_BOT_TOKEN = ''xoxb'',
     EVENTS_DAYS_AHEAD = 7,
     CHAPTER_CHANNEL_MAPPING_RAW = ''[...]'',
     JSON_parse = (\<lambda>s. if s = ''[...]'' then JsonArray sample_mappings else SyntaxError),
     fetch = (\<lambda>history req.
                case map_of sample_pages (url req) of
                  None \<Rightarrow> Inl (Rejected ''fetch failed'')
                | Some r \<Rightarrow> Inr r),
     chat_postMessage = (\<lambda>history msg.
                if channel msg = ''C-closed'' then Some (Rejected ''channel_not_found'') else None),
     clock = (\<lambda>n. sample_now) \<rparr>"

definition initial_world :: world where
  "initial_world = \<lparr> requests = [], posted = [], console = [], clock_reads = 0 \<rparr>"


text \<open>A store with one event: its tags at 0, its sessions at 1, the event at 2, the list at 3.\<close>

definition sample_store :: store where
  "sample_store =
     [StringArray [''public''],
      SessionArray [fri, past, wed],
      Event \<lparr> obj_id = 10, obj_title = ''Canvass'', obj_event_type = ''in_person'',
              obj_event_sessions = 1, obj_event_page_url = Some ''https://example.org/canvass'',
              obj_tags = 0 \<rparr>,
      EventArray [2]]"

section \<open>The sort\<close>

lemma mset_insert_sorted: "mset (insert_sorted c x ys) = add_mset x (mset ys)"
  by (induction ys) auto

lemma mset_Array_sort: "mset (Array_sort c xs) = mset xs"
  by (induction xs) (auto simp: Array_sort_def mset_insert_sorted)

lemma set_Array_sort: "set (Array_sort c xs) = set xs"
  by (metis mset_Array_sort set_mset_mset)

lemma length_Array_sort: "length (Array_sort c xs) = length xs"
  by (metis mset_Array_sort size_mset)

lemma insert_sorted_insort_key:
  "key x = Some (k x) \<Longrightarrow> \<forall>y\<in>set ys. key y = Some (k y) \<Longrightarrow>
   insert_sorted (\<lambda>a b. minus_number (key a) (key b)) x ys = insort_key k x ys"
  by (induction ys) (auto simp: SortCompare_def minus_number_def)

lemma Array_sort_sort_key:
  "\<forall>y\<in>set xs. key y = Some (k y) \<Longrightarrow>
   Array_sort (\<lambda>a b. minus_number (key a) (key b)) xs = sort_key k xs"
proof (induction xs)
  case Nil
  then show ?case by (simp add: Array_sort_def)
next
  case (Cons x xs)
  then have ih: "Array_sort (\<lambda>a b. minus_number (key a) (key b)) xs = sort_key k xs" by simp
  have "Array_sort (\<lambda>a b. minus_number (key a) (key b)) (x # xs)
      = insert_sorted (\<lambda>a b. minus_number (key a) (key b)) x (sort_key k xs)"
    using ih by (simp add: Array_sort_def)
  also have "\<dots> = insort_key k x (sort_key k xs)"
    using Cons.prems by (intro insert_sorted_insort_key) auto
  finally show ?case by (simp add: sort_key_simps)
qed

lemma sort_key_Nil_iff: "sort_key f xs = [] \<longleftrightarrow> xs = []"
  by (metis length_0_conv length_sort)

section \<open>The window filter\<close>

lemmas sample_defs = sample_platform_def sample_times_def november_weekday_def november_date_def
  november_time_def in_november_def eastern_day_def eastern_minute_def digits.simps digit_char_def
  ascii_lower_def session_def
  past_def wed_def fri_def undated_def canvass_def phonebank_def internal_def
  unpublished_def finished_def sample_events_def sample_now_def

lemmas vocabulary_defs = present_in_def holds_window_of_def has_session_in_window_def
  starts_in_window_def lacks_page_url_def carries_exclusion_tag_def first_start_def

lemma starts_in_window_time:
  "starts_in_window rt now d s \<Longrightarrow> Date_getTime rt (start_time s) = Some (start_ms rt s)"
  by (auto simp: starts_in_window_def start_ms_def split: option.splits)

lemma sessions_sort_eq:
  "Array_sort (\<lambda>a b. minus_number (Date_getTime rt (start_time a)) (Date_getTime rt (start_time b)))
     (filter (starts_in_window rt now d) ss)
   = sort_key (start_ms rt) (filter (starts_in_window rt now d) ss)"
  by (rule Array_sort_sort_key) (auto dest: starts_in_window_time)

lemma window_copy_first:
  "event_sessions (window_copy rt now d e) \<noteq> [] \<Longrightarrow>
   first_start rt (window_copy rt now d e) = Some (first_ms rt (window_copy rt now d e))"
proof -
  assume ne: "event_sessions (window_copy rt now d e) \<noteq> []"
  then obtain s ss where eq: "event_sessions (window_copy rt now d e) = s # ss"
    by (cases "event_sessions (window_copy rt now d e)") auto
  then have "s \<in> set (sort_key (start_ms rt) (filter (starts_in_window rt now d) (event_sessions e)))"
    by (simp add: window_copy_def)
  then have "starts_in_window rt now d s" by simp
  then show ?thesis using eq
    by (simp add: first_start_def first_ms_def starts_in_window_time)
qed

lemma filterAndSortEvents_eq:
  "filterAndSortEvents rt now events d =
     sort_key (first_ms rt)
       (filter (\<lambda>e. event_sessions e \<noteq> []) (map (window_copy rt now d) (filter eligible events)))"
proof -
  have win: "(\<lambda>s. case Date_getTime rt (start_time s) of None \<Rightarrow> False
                   | Some t \<Rightarrow> t \<ge> now \<and> t \<le> now + d * 24 * 60 * 60 * 1000)
             = starts_in_window rt now d"
    by (auto simp: starts_in_window_def fun_eq_iff split: option.splits)
  have el: "(\<lambda>event. truthy (event_page_url event) \<and> \<not> (''slack-exclude'' \<in> set (tags event)))
            = eligible"
    by (auto simp: eligible_def lacks_page_url_def carries_exclusion_tag_def truthy_def fun_eq_iff
             split: option.splits)
  have cp: "(\<lambda>event. event\<lparr>event_sessions :=
                  Array_sort
                    (\<lambda>a b. minus_number (Date_getTime rt (start_time a))
                                         (Date_getTime rt (start_time b)))
                    (filter (starts_in_window rt now d) (event_sessions event))\<rparr>)
            = window_copy rt now d"
    by (simp add: fun_eq_iff window_copy_def sessions_sort_eq)
  let ?pre = "filter (\<lambda>e. event_sessions e \<noteq> []) (map (window_copy rt now d) (filter eligible events))"
  have keys: "\<forall>y\<in>set ?pre. first_start rt y = Some (first_ms rt y)"
    using window_copy_first by auto
  have "filterAndSortEvents rt now events d =
        Array_sort (\<lambda>a b. minus_number (first_start rt a) (first_start rt b)) ?pre"
    unfolding filterAndSortEvents_def Let_def win el cp first_start_def by simp
  also have "\<dots> = sort_key (first_ms rt) ?pre"
    using keys by (rule Array_sort_sort_key)
  finally show ?thesis .
qed

lemma window_copy_sessions_empty:
  "event_sessions (window_copy rt now d e) = [] \<longleftrightarrow> \<not> has_session_in_window rt now d e"
  by (auto simp: window_copy_def has_session_in_window_def filter_empty_conv sort_key_Nil_iff)

lemma set_filterAndSortEvents:
  "set (filterAndSortEvents rt now events d) =
     window_copy rt now d ` {e \<in> set events. eligible e \<and> has_session_in_window rt now d e}"
  unfolding filterAndSortEvents_eq by (auto simp: window_copy_sessions_empty)

lemma holds_window_of_copy: "holds_window_of rt now d e (window_copy rt now d e)"
  by (simp add: holds_window_of_def window_copy_def)

lemma holds_window_of_fields:
  assumes "holds_window_of rt now d e e'"
  shows "event_page_url e' = event_page_url e" and "tags e' = tags e"
    and "event_sessions e' = [] \<longleftrightarrow> \<not> has_session_in_window rt now d e"
proof -
  from assms have eq: "e' = e\<lparr>event_sessions := event_sessions e'\<rparr>"
    and ms: "mset (event_sessions e') = mset (filter (starts_in_window rt now d) (event_sessions e))"
    by (simp_all add: holds_window_of_def)
  show "event_page_url e' = event_page_url e" by (subst eq) simp
  show "tags e' = tags e" by (subst eq) simp
  have "event_sessions e' = [] \<longleftrightarrow> filter (starts_in_window rt now d) (event_sessions e) = []"
    using ms by (metis mset_zero_iff)
  then show "event_sessions e' = [] \<longleftrightarrow> \<not> has_session_in_window rt now d e"
    by (auto simp: has_session_in_window_def filter_empty_conv)
qed

lemma excluded_iff:
  assumes e: "e \<in> set events"
  shows "(\<not> present_in rt now daysAhead (filterAndSortEvents rt now events daysAhead) e) =
        (lacks_page_url e \<or> carries_exclusion_tag e \<or> \<not> has_session_in_window rt now daysAhead e)"
proof (cases "eligible e \<and> has_session_in_window rt now daysAhead e")
  case True
  then have "window_copy rt now daysAhead e \<in> set (filterAndSortEvents rt now events daysAhead)"
    using e by (auto simp: set_filterAndSortEvents)
  then have "present_in rt now daysAhead (filterAndSortEvents rt now events daysAhead) e"
    unfolding present_in_def using holds_window_of_copy by blast
  with True show ?thesis by (simp add: eligible_def)
next
  case False
  have "\<not> present_in rt now daysAhead (filterAndSortEvents rt now events daysAhead) e"
  proof
    assume "present_in rt now daysAhead (filterAndSortEvents rt now events daysAhead) e"
    then obtain e' where e': "e' \<in> set (filterAndSortEvents rt now events daysAhead)"
      and h: "holds_window_of rt now daysAhead e e'"
      by (auto simp: present_in_def)
    from e' obtain e0 where e0: "eligible e0" "has_session_in_window rt now daysAhead e0"
      and eq: "e' = window_copy rt now daysAhead e0"
      by (auto simp: set_filterAndSortEvents)
    have "event_page_url e' = event_page_url e0" "tags e' = tags e0"
      by (simp_all add: eq window_copy_def)
    with holds_window_of_fields(1,2)[OF h] e0(1) have "eligible e"
      by (simp add: eligible_def lacks_page_url_def carries_exclusion_tag_def)
    moreover have "event_sessions e' \<noteq> []"
      using e0(2) by (simp add: eq window_copy_sessions_empty)
    then have "has_session_in_window rt now daysAhead e"
      using holds_window_of_fields(3)[OF h] by simp
    ultimately show False using False by simp
  qed
  with False show ?thesis by (auto simp: eligible_def)
qed

lemma output_event_window:
  assumes "e' \<in> set (filterAndSortEvents rt now events daysAhead)"
  shows "event_sessions e' \<noteq> [] \<and> (\<exists>e\<in>set events. holds_window_of rt now daysAhead e e')"
proof -
  from assms obtain e0 where e0: "e0 \<in> set events" "has_session_in_window rt now daysAhead e0"
    and eq: "e' = window_copy rt now daysAhead e0"
    by (auto simp: set_filterAndSortEvents)
  have "event_sessions e' \<noteq> []" using e0(2) by (simp add: eq window_copy_sessions_empty)
  moreover have "holds_window_of rt now daysAhead e0 e'"
    by (simp add: eq holds_window_of_copy)
  ultimately show ?thesis using e0(1) by blast
qed

lemma sample_out:
  "filterAndSortEvents sample_platform sample_now sample_events 7 =
     [canvass\<lparr>event_sessions := [wed, fri]\<rparr>, phonebank]"
  by (simp add: filterAndSortEvents_def Array_sort_def SortCompare_def minus_number_def truthy_def
      sample_defs)

text \<open>
  Claim C1. For every list of events, every \<open>daysAhead\<close> and every instant \<open>now\<close>, an
  event of the input is absent from the output of \<^verbatim>\<open>filterAndSortEvents\<close> if and only if it
  lacks a page URL, its tags contain \<^verbatim>\<open>slack-exclude\<close>, or none of its sessions starts in the
  inclusive window from \<open>now\<close> to \<open>now + daysAhead\<close> days; and every event of the output
  has at least one session and is the copy of an input event that holds exactly the
  sessions of that event which start in the window.
\<close>

theorem filterAndSortEvents_excludes_iff:
  "(\<forall>e\<in>set events.
      (\<not> present_in rt now daysAhead (filterAndSortEvents rt now events daysAhead) e) =
      (lacks_page_url e \<or> carries_exclusion_tag e \<or> \<not> has_session_in_window rt now daysAhead e))
   \<and> (\<forall>e'\<in>set (filterAndSortEvents rt now events daysAhead).
        event_sessions e' \<noteq> [] \<and> (\<exists>e\<in>set events. holds_window_of rt now daysAhead e e'))"
  using excluded_iff output_event_window by blast

theorem filterAndSortEvents_excludes_iff_witness:
  "present_in sample_platform sample_now 7
     (filterAndSortEvents sample_platform sample_now sample_events 7) canvass
   \<and> has_session_in_window sample_platform sample_now 7 canvass
   \<and> \<not> present_in sample_platform sample_now 7
     (filterAndSortEvents sample_platform sample_now sample_events 7) internal
   \<and> carries_exclusion_tag internal
   \<and> \<not> present_in sample_platform sample_now 7
     (filterAndSortEvents sample_platform sample_now sample_events 7) unpublished
   \<and> lacks_page_url unpublished
   \<and> \<not> present_in sample_platform sample_now 7
     (filterAndSortEvents sample_platform sample_now sample_events 7) finished
   \<and> \<not> has_session_in_window sample_platform sample_now 7 finished
   \<and> event_sessions (hd (filterAndSortEvents sample_platform sample_now sample_events 7)) = [wed, fri]"
proof -
  note inst = filterAndSortEvents_excludes_iff
    [where events = sample_events and rt = sample_platform and now = sample_now and daysAhead = 7]
  have mem: "canvass \<in> set sample_events" "internal \<in> set sample_events"
    "unpublished \<in> set sample_events" "finished \<in> set sample_events"
    by (simp_all add: sample_events_def)
  have c: "has_session_in_window sample_platform sample_now 7 canvass"
    "\<not> lacks_page_url canvass" "\<not> carries_exclusion_tag canvass"
    by (simp_all add: vocabulary_defs sample_defs)
  have i: "carries_exclusion_tag internal" by (simp add: vocabulary_defs sample_defs)
  have u: "lacks_page_url unpublished" by (simp add: vocabulary_defs sample_defs)
  have f: "\<not> has_session_in_window sample_platform sample_now 7 finished"
    by (simp add: vocabulary_defs sample_defs)
  have h: "event_sessions (hd (filterAndSortEvents sample_platform sample_now sample_events 7)) = [wed, fri]"
    by (simp add: sample_out)
  from inst mem c i u f h show ?thesis by blast
qed

lemma sorted_window_sessions:
  "\<exists>ts. map (\<lambda>s. Date_getTime rt (start_time s)) (event_sessions (window_copy rt now d e)) = map Some ts
        \<and> sorted ts"
proof (intro exI conjI)
  let ?ss = "event_sessions (window_copy rt now d e)"
  have "\<forall>s\<in>set ?ss. Date_getTime rt (start_time s) = Some (start_ms rt s)"
    by (auto simp: window_copy_def dest: starts_in_window_time)
  then show "map (\<lambda>s. Date_getTime rt (start_time s)) ?ss = map Some (map (start_ms rt) ?ss)"
    by simp
  show "sorted (map (start_ms rt) ?ss)" by (simp add: window_copy_def)
qed

text \<open>
  Claim C5. The output of \<^verbatim>\<open>filterAndSortEvents\<close> is sorted ascending by the start of each
  event's first remaining session, the sessions kept in each event are sorted ascending by
  start, and the events whose first session starts at one and the same instant stand in
  the output in the order their originals have in the input.
\<close>

theorem filterAndSortEvents_sorted_stable:
  "(\<exists>ts. map (first_start rt) (filterAndSortEvents rt now events daysAhead) = map Some ts \<and> sorted ts)
   \<and> (\<forall>e\<in>set (filterAndSortEvents rt now events daysAhead).
        \<exists>ts. map (\<lambda>s. Date_getTime rt (start_time s)) (event_sessions e) = map Some ts \<and> sorted ts)
   \<and> (\<forall>t. filter (\<lambda>e. first_start rt e = Some t) (filterAndSortEvents rt now events daysAhead) =
           filter (\<lambda>e. first_start rt e = Some t)
             (map (window_copy rt now daysAhead)
                (filter (\<lambda>e. \<not> lacks_page_url e \<and> \<not> carries_exclusion_tag e
                              \<and> has_session_in_window rt now daysAhead e) events)))"
proof (intro conjI)
  let ?pre = "filter (\<lambda>e. event_sessions e \<noteq> [])
                (map (window_copy rt now daysAhead) (filter eligible events))"
  let ?out = "filterAndSortEvents rt now events daysAhead"
  have out: "?out = sort_key (first_ms rt) ?pre" by (rule filterAndSortEvents_eq)
  have keys: "\<forall>e\<in>set ?pre. first_start rt e = Some (first_ms rt e)"
    using window_copy_first by auto
  then have keys_out: "\<forall>e\<in>set ?out. first_start rt e = Some (first_ms rt e)"
    by (simp add: out)
  have "map (first_start rt) ?out = map Some (map (first_ms rt) ?out)"
    using keys_out by simp
  moreover have "sorted (map (first_ms rt) ?out)" by (simp add: out)
  ultimately show "\<exists>ts. map (first_start rt) ?out = map Some ts \<and> sorted ts" by blast
  show "\<forall>e\<in>set ?out. \<exists>ts. map (\<lambda>s. Date_getTime rt (start_time s)) (event_sessions e) = map Some ts
          \<and> sorted ts"
    using sorted_window_sessions by (auto simp: set_filterAndSortEvents)
  have pre: "?pre = map (window_copy rt now daysAhead)
                (filter (\<lambda>e. \<not> lacks_page_url e \<and> \<not> carries_exclusion_tag e
                              \<and> has_session_in_window rt now daysAhead e) events)"
    by (simp add: filter_map o_def window_copy_sessions_empty eligible_def conj_commute conj_left_commute)
  show "\<forall>t. filter (\<lambda>e. first_start rt e = Some t) ?out =
           filter (\<lambda>e. first_start rt e = Some t)
             (map (window_copy rt now daysAhead)
                (filter (\<lambda>e. \<not> lacks_page_url e \<and> \<not> carries_exclusion_tag e
                              \<and> has_session_in_window rt now daysAhead e) events))"
  proof
    fix t
    have "filter (\<lambda>e. first_start rt e = Some t) ?out = filter (\<lambda>e. first_ms rt e = t) ?out"
      using keys_out by (intro filter_cong) auto
    also have "\<dots> = filter (\<lambda>e. first_ms rt e = t) ?pre"
      unfolding out by (rule sort_key_stable)
    also have "\<dots> = filter (\<lambda>e. first_start rt e = Some t) ?pre"
      using keys by (intro filter_cong) auto
    finally show "filter (\<lambda>e. first_start rt e = Some t) ?out =
           filter (\<lambda>e. first_start rt e = Some t)
             (map (window_copy rt now daysAhead)
                (filter (\<lambda>e. \<not> lacks_page_url e \<and> \<not> carries_exclusion_tag e
                              \<and> has_session_in_window rt now daysAhead e) events))"
      unfolding pre .
  qed
qed

theorem filterAndSortEvents_sorted_stable_witness:
  "map (first_start sample_platform)
     (filterAndSortEvents sample_platform sample_now sample_events 7)
     = [Some 1793833200000, Some 1793833200000]
   \<and> filter (\<lambda>e. first_start sample_platform e = Some 1793833200000)
       (filterAndSortEvents sample_platform sample_now sample_events 7)
     = [window_copy sample_platform sample_now 7 canvass,
        window_copy sample_platform sample_now 7 phonebank]"
proof -
  note inst = filterAndSortEvents_sorted_stable
    [where events = sample_events and rt = sample_platform and now = sample_now and daysAhead = 7]
  have keys: "map (first_start sample_platform)
     (filterAndSortEvents sample_platform sample_now sample_events 7)
     = [Some 1793833200000, Some 1793833200000]"
    by (simp add: sample_out first_start_def) (simp add: sample_defs)
  have surv: "filter (\<lambda>e. \<not> lacks_page_url e \<and> \<not> carries_exclusion_tag e
                \<and> has_session_in_window sample_platform sample_now 7 e) sample_events
              = [canvass, phonebank]"
    by (simp add: vocabulary_defs sample_defs)
  have first: "first_start sample_platform (window_copy sample_platform sample_now 7 canvass)
                 = Some 1793833200000"
       "first_start sample_platform (window_copy sample_platform sample_now 7 phonebank)
                 = Some 1793833200000"
    by (simp_all add: window_copy_def start_ms_def vocabulary_defs sample_defs)
  from inst have "filter (\<lambda>e. first_start sample_platform e = Some 1793833200000)
       (filterAndSortEvents sample_platform sample_now sample_events 7)
     = filter (\<lambda>e. first_start sample_platform e = Some 1793833200000)
         (map (window_copy sample_platform sample_now 7) [canvass, phonebank])"
    unfolding surv by blast
  with first keys show ?thesis by simp
qed

section \<open>The block document\<close>

lemma and_then_simps [simp]:
  "and_then (Inr v) f = f v" "and_then (Inl e) f = Inl e"
  by (simp_all add: and_then_def)

lemma and_then_eq_Inr: "and_then r f = Inr y \<longleftrightarrow> (\<exists>v. r = Inr v \<and> f v = Inr y)"
  by (cases r) simp_all

lemma map_ok_Inr: "map_ok f xs = Inr ys \<longleftrightarrow> list_all2 (\<lambda>x y. f x = Inr y) xs ys"
proof (induction xs arbitrary: ys)
  case Nil
  then show ?case by auto
next
  case (Cons x xs)
  show ?case
  proof (cases ys)
    case Nil
    then show ?thesis by (auto simp: and_then_eq_Inr)
  next
    case (Cons y ys')
    then show ?thesis using Cons.IH[of ys'] by (auto simp: and_then_eq_Inr)
  qed
qed

lemma map_ok_Inl: "map_ok f xs = Inl e \<Longrightarrow> \<exists>x\<in>set xs. f x = Inl e"
proof (induction xs)
  case Nil
  then show ?case by simp
next
  case (Cons x xs)
  then show ?case
    by (cases "f x"; cases "map_ok f xs") auto
qed

lemma map_ok_total: "(\<forall>x\<in>set xs. \<exists>y. f x = Inr y) \<Longrightarrow> \<exists>ys. map_ok f xs = Inr ys"
proof (induction xs)
  case Nil
  then show ?case by simp
next
  case (Cons x xs)
  then obtain y ys where "f x = Inr y" "map_ok f xs = Inr ys" by auto
  then show ?case by simp
qed

lemma for_visibleEvents_eq:
  "for_visibleEvents rt es acc =
     and_then (map_ok (sectionBlock rt) es) (\<lambda>secs. Inr (acc @ with_dividers secs))"
proof (induction es arbitrary: acc)
  case Nil
  then show ?case by (simp add: with_dividers_def)
next
  case (Cons e es)
  show ?case
  proof (cases "sectionBlock rt e")
    case (Inl err)
    then show ?thesis by simp
  next
    case (Inr b)
    then show ?thesis
      by (cases "map_ok (sectionBlock rt) es") (simp_all add: Cons.IH with_dividers_def)
  qed
qed

lemma length_with_dividers: "length (with_dividers secs) = 2 * length secs"
  by (induction secs) (simp_all add: with_dividers_def)

lemma with_dividers_Nil_iff: "with_dividers secs = [] \<longleftrightarrow> secs = []"
  by (cases secs) (simp_all add: with_dividers_def)

lemma with_dividers_snoc: "with_dividers (secs @ [s]) = with_dividers secs @ [s, Divider]"
  by (simp add: with_dividers_def)

lemma butlast_with_dividers_snoc:
  "butlast (with_dividers (secs @ [s])) = with_dividers secs @ [s]"
  by (simp add: with_dividers_snoc butlast_append)

lemma last_with_dividers: "secs \<noteq> [] \<Longrightarrow> last (with_dividers secs) = Divider"
  by (cases secs rule: rev_cases) (simp_all add: with_dividers_snoc)

lemma with_dividers_nth_even:
  "i < length secs \<Longrightarrow> with_dividers secs ! (2 * i) = secs ! i"
proof (induction secs arbitrary: i)
  case Nil
  then show ?case by simp
next
  case (Cons s secs)
  show ?case
  proof (cases i)
    case 0
    then show ?thesis by (simp add: with_dividers_def)
  next
    case (Suc j)
    with Cons.prems have "j < length secs" by simp
    from Cons.IH[OF this] show ?thesis using Suc
      by (simp add: with_dividers_def)
  qed
qed

lemma with_dividers_nth_odd:
  "i < length secs \<Longrightarrow> with_dividers secs ! (2 * i + 1) = Divider"
proof (induction secs arbitrary: i)
  case Nil
  then show ?case by simp
next
  case (Cons s secs)
  show ?case
  proof (cases i)
    case 0
    then show ?thesis by (simp add: with_dividers_def)
  next
    case (Suc j)
    with Cons.prems have "j < length secs" by simp
    from Cons.IH[OF this] show ?thesis using Suc
      by (simp add: with_dividers_def)
  qed
qed

lemma filter_section_with_dividers:
  "\<forall>s\<in>set secs. is_section s \<Longrightarrow> filter is_section (with_dividers secs) = secs"
  by (induction secs) (simp_all add: with_dividers_def is_section_def)

lemma filter_context_with_dividers:
  "\<forall>s\<in>set secs. is_section s \<Longrightarrow> filter is_context (with_dividers secs) = []"
  by (induction secs) (auto simp: with_dividers_def is_section_def is_context_def split: block.splits)

lemma overflow_text:
  "Context [mrkdwn (''_+'' @ String (int k) @ '' more event'' @ (if k = 1 then [] else ''s'')
                    @ '' later this week not shown._'')] = overflow_notice k"
  by (simp add: overflow_notice_def String_def digits.simps[of "Suc 0"] digit_char_def)

lemma new_Date_valid: "new_Date tv = (if valid_time tv then Some tv else None)"
  by (auto simp: new_Date_def valid_time_def)

lemma formatHeaderDateRange_eq:
  "formatHeaderDateRange rt (new_Date now) daysAhead =
     (if header_dates_valid now daysAhead then Inr (header_range rt now daysAhead)
      else Inl RangeError)"
  by (simp add: formatHeaderDateRange_def new_Date_valid header_dates_valid_def header_range_def
        format_def Let_def mult.commute)

lemma buildBlocks_overflow:
  "buildBlocks rt now chapterName chapterUrl events daysAhead =
     and_then (formatHeaderDateRange rt (new_Date now) daysAhead) (\<lambda>dateRange.
      if length events = 0
      then Inr [headerBlock chapterName,
                subtitleBlock dateRange chapterUrl daysAhead,
                Section (mrkdwn (''No upcoming events in the next '' @ String daysAhead
                                 @ '' days.''))]
      else
        let overflow = (if length events > MAX_GROUPS then length events - MAX_GROUPS else 0);
            visibleEvents = (if overflow > 0 then take MAX_GROUPS events else events)
        in and_then (for_visibleEvents rt visibleEvents []) (\<lambda>eventBlocks.
             let eventBlocks =
                   (if length eventBlocks > 0 \<and> last eventBlocks = Divider
                    then butlast eventBlocks else eventBlocks);
                 eventBlocks =
                   (if overflow > 0 then eventBlocks @ [overflow_notice overflow] else eventBlocks)
             in Inr ([headerBlock chapterName, subtitleBlock dateRange chapterUrl daysAhead]
                     @ eventBlocks)))"
  unfolding buildBlocks_def overflow_text ..

lemma buildBlocks_nonempty:
  assumes "events \<noteq> []"
  shows "buildBlocks rt now chapterName chapterUrl events daysAhead =
     and_then (formatHeaderDateRange rt (new_Date now) daysAhead) (\<lambda>dateRange.
     and_then (map_ok (sectionBlock rt) (take 23 events)) (\<lambda>secs.
       Inr ([headerBlock chapterName, subtitleBlock dateRange chapterUrl daysAhead]
            @ butlast (with_dividers secs)
            @ (if length events > 23 then [overflow_notice (length events - 23)] else []))))"
proof (cases "map_ok (sectionBlock rt) (take 23 events)")
  case (Inl e)
  then show ?thesis using assms
    by (cases "formatHeaderDateRange rt (new_Date now) daysAhead")
       (auto simp: buildBlocks_overflow Let_def MAX_GROUPS_def for_visibleEvents_eq)
next
  case (Inr secs)
  then have "length secs = length (take 23 events)"
    using list_all2_lengthD[of "\<lambda>x y. sectionBlock rt x = Inr y" "take 23 events" secs]
    by (simp add: map_ok_Inr)
  moreover have "0 < length (take 23 events)" using assms by (cases events) simp_all
  ultimately have ne: "secs \<noteq> []" by (auto simp: min_def split: if_splits)
  then have l: "last (with_dividers secs) = Divider" "with_dividers secs \<noteq> []"
    by (simp_all add: last_with_dividers with_dividers_Nil_iff)
  show ?thesis using assms Inr l
    by (cases "formatHeaderDateRange rt (new_Date now) daysAhead")
       (auto simp: buildBlocks_overflow Let_def MAX_GROUPS_def for_visibleEvents_eq)
qed

lemma buildBlocks_header_error:
  "\<not> header_dates_valid now daysAhead \<Longrightarrow>
     buildBlocks rt now chapterName chapterUrl events daysAhead = Inl RangeError"
  by (simp add: buildBlocks_def formatHeaderDateRange_eq)

lemma buildBlocks_valid_nonempty:
  assumes "events \<noteq> []" "header_dates_valid now daysAhead"
  shows "buildBlocks rt now chapterName chapterUrl events daysAhead =
     and_then (map_ok (sectionBlock rt) (take 23 events)) (\<lambda>secs.
       Inr ([headerBlock chapterName,
             subtitleBlock (header_range rt now daysAhead) chapterUrl daysAhead]
            @ butlast (with_dividers secs)
            @ (if length events > 23 then [overflow_notice (length events - 23)] else [])))"
  using assms(2) by (simp add: buildBlocks_nonempty[OF assms(1)] formatHeaderDateRange_eq)

lemma formatDateRange_Inr:
  "(\<exists>t. formatDateRange rt sd ed = Inr t) \<longleftrightarrow> sd \<noteq> None \<and> ed \<noteq> None"
  by (cases sd; cases ed) (auto simp: formatDateRange_def format_def Let_def)

lemma formatDateRange_Inl:
  "formatDateRange rt sd ed = Inl e \<Longrightarrow> e = RangeError"
  by (cases sd; cases ed) (auto simp: formatDateRange_def format_def Let_def)

lemma sessionLine_Inr:
  "(\<exists>l. sessionLine rt lab v s = Inr l) \<longleftrightarrow>
     Date_getTime rt (start_time s) \<noteq> None \<and> Date_getTime rt (end_time s) \<noteq> None"
proof -
  have "(\<exists>l. sessionLine rt lab v s = Inr l) \<longleftrightarrow>
        (\<exists>t. formatDateRange rt (Date_getTime rt (start_time s)) (Date_getTime rt (end_time s)) = Inr t)"
    by (auto simp: sessionLine_def Let_def and_then_eq_Inr)
  then show ?thesis by (simp add: formatDateRange_Inr)
qed

lemma sectionBlock_Inr:
  "(\<exists>b. sectionBlock rt e = Inr b) \<longleftrightarrow> formattable rt e"
proof
  assume "\<exists>b. sectionBlock rt e = Inr b"
  then obtain ls where
    "map_ok (sessionLine rt (eventTypeLabel (toLowerCase rt (event_type e)))
        (toLowerCase rt (event_type e) = ''virtual'' \<or> toLowerCase rt (event_type e) = ''online''))
       (event_sessions e) = Inr ls"
    by (auto simp: sectionBlock_def Let_def and_then_eq_Inr)
  then have "list_all2 (\<lambda>s l. sessionLine rt (eventTypeLabel (toLowerCase rt (event_type e)))
        (toLowerCase rt (event_type e) = ''virtual'' \<or> toLowerCase rt (event_type e) = ''online'')
        s = Inr l) (event_sessions e) ls"
    by (simp add: map_ok_Inr)
  then have "\<forall>s\<in>set (event_sessions e). \<exists>l. sessionLine rt (eventTypeLabel (toLowerCase rt (event_type e)))
        (toLowerCase rt (event_type e) = ''virtual'' \<or> toLowerCase rt (event_type e) = ''online'')
        s = Inr l"
    by (auto simp: list_all2_conv_all_nth in_set_conv_nth)
  then show "formattable rt e"
    unfolding formattable_def using sessionLine_Inr by blast
next
  assume "formattable rt e"
  then have "\<forall>s\<in>set (event_sessions e). \<exists>l. sessionLine rt (eventTypeLabel (toLowerCase rt (event_type e)))
        (toLowerCase rt (event_type e) = ''virtual'' \<or> toLowerCase rt (event_type e) = ''online'')
        s = Inr l"
    unfolding formattable_def using sessionLine_Inr by blast
  from map_ok_total[OF this] show "\<exists>b. sectionBlock rt e = Inr b"
    by (auto simp: sectionBlock_def Let_def)
qed

lemma sectionBlock_is_section: "sectionBlock rt e = Inr b \<Longrightarrow> is_section b"
  by (auto simp: sectionBlock_def Let_def and_then_eq_Inr is_section_def)

lemma sections_ok_iff:
  "(\<exists>secs. map_ok (sectionBlock rt) es = Inr secs) \<longleftrightarrow> (\<forall>e\<in>set es. formattable rt e)"
proof
  assume "\<exists>secs. map_ok (sectionBlock rt) es = Inr secs"
  then obtain secs where "list_all2 (\<lambda>e b. sectionBlock rt e = Inr b) es secs"
    by (auto simp: map_ok_Inr)
  then have "\<forall>e\<in>set es. \<exists>b. sectionBlock rt e = Inr b"
    by (auto simp: list_all2_conv_all_nth in_set_conv_nth)
  then show "\<forall>e\<in>set es. formattable rt e" by (simp add: sectionBlock_Inr)
next
  assume "\<forall>e\<in>set es. formattable rt e"
  then have "\<forall>e\<in>set es. \<exists>b. sectionBlock rt e = Inr b" by (simp add: sectionBlock_Inr)
  from map_ok_total[OF this] show "\<exists>secs. map_ok (sectionBlock rt) es = Inr secs" .
qed

lemma sections_all_section:
  assumes "list_all2 (\<lambda>e b. sectionBlock rt e = Inr b) es secs"
  shows "\<forall>s\<in>set secs. is_section s"
proof
  fix s assume "s \<in> set secs"
  then obtain i where i: "i < length secs" "secs ! i = s" by (auto simp: in_set_conv_nth)
  with assms have "sectionBlock rt (es ! i) = Inr s" by (auto simp: list_all2_conv_all_nth)
  then show "is_section s" by (rule sectionBlock_is_section)
qed

lemma buildBlocks_shape:
  assumes ne: "events \<noteq> []"
    and doc: "buildBlocks rt now chapterName chapterUrl events daysAhead = Inr doc"
  obtains secs where
    "list_all2 (\<lambda>e b. sectionBlock rt e = Inr b) (take 23 events) secs"
    "secs \<noteq> []"
    "doc = [headerBlock chapterName,
            subtitleBlock (header_range rt now daysAhead) chapterUrl daysAhead]
           @ butlast (with_dividers secs)
           @ (if length events > 23 then [overflow_notice (length events - 23)] else [])"
    "header_dates_valid now daysAhead"
proof -
  have valid: "header_dates_valid now daysAhead"
    using doc buildBlocks_header_error[of now daysAhead rt chapterName chapterUrl events] by auto
  from doc obtain secs where ok: "map_ok (sectionBlock rt) (take 23 events) = Inr secs"
    and d: "doc = [headerBlock chapterName,
            subtitleBlock (header_range rt now daysAhead) chapterUrl daysAhead]
           @ butlast (with_dividers secs)
           @ (if length events > 23 then [overflow_notice (length events - 23)] else [])"
    unfolding buildBlocks_valid_nonempty[OF ne valid] and_then_eq_Inr by auto
  from ok have la: "list_all2 (\<lambda>e b. sectionBlock rt e = Inr b) (take 23 events) secs"
    by (simp add: map_ok_Inr)
  then have "length secs = length (take 23 events)"
    using list_all2_lengthD[of "\<lambda>e b. sectionBlock rt e = Inr b" "take 23 events" secs] by simp
  moreover have "0 < length (take 23 events)" using ne by (cases events) simp_all
  ultimately have "secs \<noteq> []" by (auto simp: min_def split: if_splits)
  with la d valid show ?thesis using that by blast
qed

lemma buildBlocks_empty:
  "buildBlocks rt now chapterName chapterUrl [] daysAhead =
     (if header_dates_valid now daysAhead
      then Inr [headerBlock chapterName,
                subtitleBlock (header_range rt now daysAhead) chapterUrl daysAhead,
                Section (mrkdwn (''No upcoming events in the next '' @ String daysAhead
                                 @ '' days.''))]
      else Inl RangeError)"
  by (simp add: buildBlocks_def formatHeaderDateRange_eq)

lemma buildBlocks_ok_iff:
  "(\<exists>doc. buildBlocks rt now chapterName chapterUrl events daysAhead = Inr doc)
     \<longleftrightarrow> header_dates_valid now daysAhead \<and> (\<forall>e\<in>set (take 23 events). formattable rt e)"
proof (cases "header_dates_valid now daysAhead")
  case invalid: False
  then show ?thesis by (simp add: buildBlocks_header_error)
next
  case valid: True
  show ?thesis
  proof (cases "events = []")
    case True
    then show ?thesis using valid by (simp add: buildBlocks_empty)
  next
    case False
    have "(\<exists>doc. buildBlocks rt now chapterName chapterUrl events daysAhead = Inr doc)
          \<longleftrightarrow> (\<exists>secs. map_ok (sectionBlock rt) (take 23 events) = Inr secs)"
      unfolding buildBlocks_valid_nonempty[OF False valid] and_then_eq_Inr by auto
    then show ?thesis using valid by (simp only: sections_ok_iff simp_thms)
  qed
qed

lemma buildBlocks_error:
  assumes "buildBlocks rt now chapterName chapterUrl events daysAhead = Inl err"
  shows "err = RangeError"
proof (cases "header_dates_valid now daysAhead")
  case False
  with assms show ?thesis by (simp add: buildBlocks_header_error)
next
  case valid: True
  show ?thesis
  proof (cases "events = []")
    case True
    with assms valid show ?thesis by (simp add: buildBlocks_empty)
  next
    case False
    from assms have "map_ok (sectionBlock rt) (take 23 events) = Inl err"
      unfolding buildBlocks_valid_nonempty[OF False valid]
      by (cases "map_ok (sectionBlock rt) (take 23 events)") simp_all
    from map_ok_Inl[OF this] obtain e where "sectionBlock rt e = Inl err" by blast
    then have "map_ok (sessionLine rt (eventTypeLabel (toLowerCase rt (event_type e)))
        (toLowerCase rt (event_type e) = ''virtual'' \<or> toLowerCase rt (event_type e) = ''online''))
       (event_sessions e) = Inl err"
      unfolding sectionBlock_def Let_def
      by (cases "map_ok (sessionLine rt (eventTypeLabel (toLowerCase rt (event_type e)))
        (toLowerCase rt (event_type e) = ''virtual'' \<or> toLowerCase rt (event_type e) = ''online''))
       (event_sessions e)") simp_all
    from map_ok_Inl[OF this] obtain s where
      "sessionLine rt (eventTypeLabel (toLowerCase rt (event_type e)))
        (toLowerCase rt (event_type e) = ''virtual'' \<or> toLowerCase rt (event_type e) = ''online'')
        s = Inl err"
      by blast
    then have "formatDateRange rt (Date_getTime rt (start_time s)) (Date_getTime rt (end_time s))
                 = Inl err"
      unfolding sessionLine_def Let_def
      by (cases "formatDateRange rt (Date_getTime rt (start_time s)) (Date_getTime rt (end_time s))")
         simp_all
    then show ?thesis by (rule formatDateRange_Inl)
  qed
qed

lemma filter_butlast_with_dividers:
  assumes "\<forall>s\<in>set secs. is_section s"
  shows "filter is_section (butlast (with_dividers secs)) = secs"
    and "filter is_context (butlast (with_dividers secs)) = []"
proof -
  show "filter is_section (butlast (with_dividers secs)) = secs"
  proof (cases secs rule: rev_cases)
    case Nil
    then show ?thesis by (simp add: with_dividers_def)
  next
    case (snoc ys y)
    with assms have "\<forall>s\<in>set ys. is_section s" "is_section y" by auto
    then show ?thesis
      by (simp add: snoc butlast_with_dividers_snoc filter_section_with_dividers)
  qed
  show "filter is_context (butlast (with_dividers secs)) = []"
  proof (cases secs rule: rev_cases)
    case Nil
    then show ?thesis by (simp add: with_dividers_def)
  next
    case (snoc ys y)
    with assms have "\<forall>s\<in>set ys. is_section s" "is_section y" by auto
    then show ?thesis
      by (auto simp: snoc butlast_with_dividers_snoc filter_context_with_dividers
            is_section_def is_context_def split: block.splits)
  qed
qed

lemma length_butlast_with_dividers:
  "secs \<noteq> [] \<Longrightarrow> length (butlast (with_dividers secs)) = 2 * length secs - 1"
  by (simp add: length_with_dividers)

lemma overflow_notice_context: "is_context (overflow_notice k)" "\<not> is_section (overflow_notice k)"
  by (simp_all add: overflow_notice_def is_context_def is_section_def)

lemma doc_nth:
  assumes "secs \<noteq> []" "k < 2 * length secs - 1"
  shows "([h, s] @ butlast (with_dividers secs) @ ov) ! (2 + k) = with_dividers secs ! k"
proof -
  have "k < length (butlast (with_dividers secs))"
    using assms by (simp add: length_with_dividers)
  then have "(butlast (with_dividers secs) @ ov) ! k = with_dividers secs ! k"
    by (simp add: nth_append nth_butlast)
  then show ?thesis by simp
qed

lemma last_butlast_with_dividers:
  assumes "secs \<noteq> []"
  shows "last (butlast (with_dividers secs)) = last secs"
proof -
  from assms obtain ys y where "secs = ys @ [y]" by (cases secs rule: rev_cases) auto
  then show ?thesis by (simp add: butlast_with_dividers_snoc)
qed

lemma butlast_with_dividers_Nil_iff: "butlast (with_dividers secs) = [] \<longleftrightarrow> secs = []"
  by (cases secs rule: rev_cases) (simp_all add: with_dividers_def butlast_append)

lemma buildBlocks_section_nth:
  assumes doc: "buildBlocks rt now chapterName chapterUrl events daysAhead = Inr doc"
    and i: "i < length events" "i < 23"
  shows "sectionBlock rt (events ! i) = Inr (doc ! (2 + 2 * i))"
proof -
  from i have ne: "events \<noteq> []" by auto
  from buildBlocks_shape[OF ne doc] obtain secs where
    la: "list_all2 (\<lambda>e b. sectionBlock rt e = Inr b) (take 23 events) secs"
    and sne: "secs \<noteq> []"
    and d: "doc = [headerBlock chapterName,
          subtitleBlock (header_range rt now daysAhead) chapterUrl daysAhead]
         @ butlast (with_dividers secs)
         @ (if length events > 23 then [overflow_notice (length events - 23)] else [])"
    by blast
  have len: "length secs = min (length events) 23"
    using list_all2_lengthD[OF la] by simp
  with i have il: "i < length secs" by simp
  from list_all2_nthD2[OF la il] i have "sectionBlock rt (events ! i) = Inr (secs ! i)" by simp
  moreover have "2 * i < 2 * length secs - 1" using il by simp
  from doc_nth[OF sne this] have "doc ! (2 + 2 * i) = with_dividers secs ! (2 * i)"
    unfolding d .
  ultimately show ?thesis using with_dividers_nth_even[OF il] by simp
qed

lemma location_segment_iff:
  "location_segment rt e s \<noteq> [] \<longleftrightarrow>
     \<not> virtual_type (toLowerCase rt (event_type e)) \<and> preferred_location s \<noteq> None"
  by (auto simp: location_segment_def split: option.splits)

lemma label_segment_iff:
  "label_segment rt e \<noteq> [] \<longleftrightarrow>
     toLowerCase rt (event_type e) \<in> set [''in_person'', ''in-person'', ''virtual'', ''online'', ''hybrid'']"
  by (auto simp: label_segment_def known_type_label_def split: option.splits if_splits)

lemma sessionLine_segments:
  assumes "sessionLine rt (eventTypeLabel (toLowerCase rt (event_type e)))
             (toLowerCase rt (event_type e) = ''virtual'' \<or> toLowerCase rt (event_type e) = ''online'')
             s = Inr l"
  shows "\<exists>timeStr. formatDateRange rt (Date_getTime rt (start_time s)) (Date_getTime rt (end_time s))
               = Inr timeStr
           \<and> l = CALENDAR @ '' *'' @ timeStr @ ''*'' @ location_segment rt e s @ label_segment rt e"
proof -
  from assms obtain timeStr where
    t: "formatDateRange rt (Date_getTime rt (start_time s)) (Date_getTime rt (end_time s)) = Inr timeStr"
    by (auto simp: sessionLine_def Let_def and_then_eq_Inr)
  have lab: "(if eventTypeLabel (toLowerCase rt (event_type e)) \<noteq> []
              then x @ ''   '' @ eventTypeLabel (toLowerCase rt (event_type e)) else x)
             = x @ label_segment rt e" for x
    by (simp add: label_segment_def known_type_label_def eventTypeLabel_def)
  have loc: "(case (if location_address s \<noteq> [] then Some (location_address s)
                    else if truthy (location_name s) then location_name s else None) of
                None \<Rightarrow> x
              | Some a \<Rightarrow>
                  if truthy (if location_address s \<noteq> [] then Some (location_address s)
                             else if truthy (location_name s) then location_name s else None)
                     \<and> \<not> (toLowerCase rt (event_type e) = ''virtual''
                           \<or> toLowerCase rt (event_type e) = ''online'')
                  then x @ ''   '' @ ROUND_PUSHPIN @ '' _'' @ a @ ''_'' else x)
             = x @ location_segment rt e s" for x
    by (auto simp: location_segment_def preferred_location_def virtual_type_def truthy_def
          split: option.splits)
  from assms t have "l = CALENDAR @ '' *'' @ timeStr @ ''*'' @ location_segment rt e s @ label_segment rt e"
    unfolding sessionLine_def Let_def by (simp add: lab loc)
  with t show ?thesis by blast
qed

lemma sectionBlock_lines:
  assumes "sectionBlock rt e = Inr b"
  shows "\<exists>lines. b = Section (mrkdwn (title_link e @ LF @ join LF lines))
           \<and> length lines = length (event_sessions e)
           \<and> (\<forall>j<length lines.
                 \<exists>timeStr. formatDateRange rt (Date_getTime rt (start_time (event_sessions e ! j)))
                              (Date_getTime rt (end_time (event_sessions e ! j))) = Inr timeStr
                   \<and> lines ! j = CALENDAR @ '' *'' @ timeStr @ ''*''
                        @ location_segment rt e (event_sessions e ! j) @ label_segment rt e)"
proof -
  let ?f = "sessionLine rt (eventTypeLabel (toLowerCase rt (event_type e)))
             (toLowerCase rt (event_type e) = ''virtual'' \<or> toLowerCase rt (event_type e) = ''online'')"
  from assms obtain lines where m: "map_ok ?f (event_sessions e) = Inr lines"
    and b: "b = Section (mrkdwn (title_link e @ LF @ join LF lines))"
    by (auto simp: sectionBlock_def Let_def and_then_eq_Inr title_link_def)
  from m have la: "list_all2 (\<lambda>s l. ?f s = Inr l) (event_sessions e) lines"
    by (simp add: map_ok_Inr)
  then have len: "length lines = length (event_sessions e)"
    using list_all2_lengthD by fastforce
  have "\<forall>j<length lines.
          \<exists>timeStr. formatDateRange rt (Date_getTime rt (start_time (event_sessions e ! j)))
                       (Date_getTime rt (end_time (event_sessions e ! j))) = Inr timeStr
            \<and> lines ! j = CALENDAR @ '' *'' @ timeStr @ ''*''
                 @ location_segment rt e (event_sessions e ! j) @ label_segment rt e"
  proof (intro allI impI)
    fix j assume j: "j < length lines"
    from list_all2_nthD2[OF la j] have "?f (event_sessions e ! j) = Inr (lines ! j)" .
    then show "\<exists>timeStr. formatDateRange rt (Date_getTime rt (start_time (event_sessions e ! j)))
                       (Date_getTime rt (end_time (event_sessions e ! j))) = Inr timeStr
            \<and> lines ! j = CALENDAR @ '' *'' @ timeStr @ ''*''
                 @ location_segment rt e (event_sessions e ! j) @ label_segment rt e"
      by (rule sessionLine_segments)
  qed
  with b len show ?thesis by blast
qed

lemma formattable_samples:
  "formattable sample_platform phonebank"
  "formattable sample_platform (canvass\<lparr>event_sessions := [wed, fri]\<rparr>)"
  by (simp_all add: formattable_def sample_defs)

lemma header_dates_valid_sample: "header_dates_valid sample_now 7"
  by (simp add: header_dates_valid_def valid_time_def sample_now_def)

text \<open>
  Claim C3. \<^verbatim>\<open>buildBlocks\<close> never emits more than 50 blocks. When the list of filtered
  events has at most 23 events, the document has no overflow notice (no context block
  after the subtitle) and its sections are the sections of all the events, in order. When
  the list has \<open>n > 23\<close> events, the sections of the document are the sections of the first
  23 events, and one overflow notice for \<open>n - 23\<close> events is appended as the last block,
  with singular wording for one event and plural wording otherwise. A document is returned
  exactly when the date range of the subtitle and every visible event can be formatted;
  otherwise \<^verbatim>\<open>RangeError\<close> is raised and there is no document.
\<close>

theorem buildBlocks_budget:
  "((\<exists>doc. buildBlocks rt now chapterName chapterUrl events daysAhead = Inr doc)
      \<longleftrightarrow> header_dates_valid now daysAhead \<and> (\<forall>e\<in>set (take 23 events). formattable rt e))
   \<and> (\<forall>err. buildBlocks rt now chapterName chapterUrl events daysAhead = Inl err \<longrightarrow>
          err = RangeError)
   \<and> (\<forall>doc. buildBlocks rt now chapterName chapterUrl events daysAhead = Inr doc \<longrightarrow>
          length doc \<le> 50
        \<and> (length events \<le> 23 \<longrightarrow>
              filter is_context (drop 2 doc) = []
            \<and> (events \<noteq> [] \<longrightarrow>
                 list_all2 (\<lambda>e b. sectionBlock rt e = Inr b) events
                   (filter is_section (drop 2 doc))))
        \<and> (23 < length events \<longrightarrow>
              list_all2 (\<lambda>e b. sectionBlock rt e = Inr b) (take 23 events)
                (filter is_section (drop 2 doc))
            \<and> filter is_context (drop 2 doc) = [overflow_notice (length events - 23)]
            \<and> last doc = overflow_notice (length events - 23)))"
proof -
  have returns: "(\<exists>doc. buildBlocks rt now chapterName chapterUrl events daysAhead = Inr doc)
      \<longleftrightarrow> header_dates_valid now daysAhead \<and> (\<forall>e\<in>set (take 23 events). formattable rt e)"
    by (rule buildBlocks_ok_iff)
  have raises: "\<forall>err. buildBlocks rt now chapterName chapterUrl events daysAhead = Inl err \<longrightarrow>
          err = RangeError"
    using buildBlocks_error by blast
  have budget: "\<forall>doc. buildBlocks rt now chapterName chapterUrl events daysAhead = Inr doc \<longrightarrow>
          length doc \<le> 50
        \<and> (length events \<le> 23 \<longrightarrow>
              filter is_context (drop 2 doc) = []
            \<and> (events \<noteq> [] \<longrightarrow>
                 list_all2 (\<lambda>e b. sectionBlock rt e = Inr b) events
                   (filter is_section (drop 2 doc))))
        \<and> (23 < length events \<longrightarrow>
              list_all2 (\<lambda>e b. sectionBlock rt e = Inr b) (take 23 events)
                (filter is_section (drop 2 doc))
            \<and> filter is_context (drop 2 doc) = [overflow_notice (length events - 23)]
            \<and> last doc = overflow_notice (length events - 23))"
  proof (intro allI impI)
    fix doc
    assume doc: "buildBlocks rt now chapterName chapterUrl events daysAhead = Inr doc"
    show "length doc \<le> 50
        \<and> (length events \<le> 23 \<longrightarrow>
              filter is_context (drop 2 doc) = []
            \<and> (events \<noteq> [] \<longrightarrow>
                 list_all2 (\<lambda>e b. sectionBlock rt e = Inr b) events
                   (filter is_section (drop 2 doc))))
        \<and> (23 < length events \<longrightarrow>
              list_all2 (\<lambda>e b. sectionBlock rt e = Inr b) (take 23 events)
                (filter is_section (drop 2 doc))
            \<and> filter is_context (drop 2 doc) = [overflow_notice (length events - 23)]
            \<and> last doc = overflow_notice (length events - 23))"
    proof (cases "events = []")
      case True
      with doc show ?thesis by (auto simp: buildBlocks_empty is_context_def split: if_splits)
    next
      case False
      from buildBlocks_shape[OF False doc] obtain secs where
        la: "list_all2 (\<lambda>e b. sectionBlock rt e = Inr b) (take 23 events) secs"
        and ne: "secs \<noteq> []"
        and d: "doc = [headerBlock chapterName,
              subtitleBlock (header_range rt now daysAhead) chapterUrl daysAhead]
             @ butlast (with_dividers secs)
             @ (if length events > 23 then [overflow_notice (length events - 23)] else [])"
        by blast
      have len: "length secs = min (length events) 23"
        using list_all2_lengthD[OF la] by simp
      have sec: "\<forall>s\<in>set secs. is_section s" using la by (rule sections_all_section)
      have dr: "drop 2 doc = butlast (with_dividers secs)
             @ (if length events > 23 then [overflow_notice (length events - 23)] else [])"
        by (simp add: d)
      have "length secs \<le> 23" using len by simp
      then have l50: "length doc \<le> 50"
        by (simp add: d length_with_dividers; arith)
      have small: "length events \<le> 23 \<longrightarrow>
              filter is_context (drop 2 doc) = []
            \<and> list_all2 (\<lambda>e b. sectionBlock rt e = Inr b) events (filter is_section (drop 2 doc))"
      proof
        assume le: "length events \<le> 23"
        then have "take 23 events = events" by simp
        with la have "list_all2 (\<lambda>e b. sectionBlock rt e = Inr b) events secs" by simp
        with le show "filter is_context (drop 2 doc) = []
            \<and> list_all2 (\<lambda>e b. sectionBlock rt e = Inr b) events (filter is_section (drop 2 doc))"
          by (simp add: dr filter_butlast_with_dividers[OF sec])
      qed
      have large: "23 < length events \<longrightarrow>
              list_all2 (\<lambda>e b. sectionBlock rt e = Inr b) (take 23 events)
                (filter is_section (drop 2 doc))
            \<and> filter is_context (drop 2 doc) = [overflow_notice (length events - 23)]
            \<and> last doc = overflow_notice (length events - 23)"
        using la by (simp add: dr d filter_butlast_with_dividers[OF sec] overflow_notice_context)
      from l50 small large show ?thesis by blast
    qed
  qed
  show ?thesis by (rule conjI[OF returns conjI[OF raises budget]])
qed

theorem buildBlocks_budget_witness:
  "(\<exists>doc. buildBlocks sample_platform sample_now ''Metro'' ''https://example.org/all''
             (replicate 25 phonebank) 7 = Inr doc
          \<and> length doc \<le> 50
          \<and> length (filter is_section (drop 2 doc)) = 23
          \<and> last doc = Context [mrkdwn ''_+2 more events later this week not shown._''])
   \<and> (\<exists>doc. buildBlocks sample_platform sample_now ''Metro'' ''https://example.org/all''
             sample_filtered 7 = Inr doc
          \<and> length doc \<le> 50
          \<and> filter is_context (drop 2 doc) = []
          \<and> length (filter is_section (drop 2 doc)) = 2)"
proof
  note big = buildBlocks_budget[where rt = sample_platform and now = sample_now
      and chapterName = "''Metro''" and chapterUrl = "''https://example.org/all''"
      and events = "replicate 25 phonebank" and daysAhead = 7]
  have "\<forall>e\<in>set (take 23 (replicate 25 phonebank)). formattable sample_platform e"
    by (simp add: formattable_samples)
  with big header_dates_valid_sample obtain doc where doc: "buildBlocks sample_platform sample_now ''Metro''
      ''https://example.org/all'' (replicate 25 phonebank) 7 = Inr doc"
    by blast
  with big have p: "length doc \<le> 50"
    "list_all2 (\<lambda>e b. sectionBlock sample_platform e = Inr b) (take 23 (replicate 25 phonebank))
       (filter is_section (drop 2 doc))"
    "last doc = overflow_notice (length (replicate 25 phonebank) - 23)"
    by simp_all
  from list_all2_lengthD[OF p(2)] have "length (filter is_section (drop 2 doc)) = 23" by simp
  moreover have "overflow_notice (length (replicate 25 phonebank) - 23)
      = Context [mrkdwn ''_+2 more events later this week not shown._'']"
    by (simp add: overflow_notice_def String_def digits.simps digit_char_def)
  ultimately show "\<exists>doc. buildBlocks sample_platform sample_now ''Metro'' ''https://example.org/all''
             (replicate 25 phonebank) 7 = Inr doc
          \<and> length doc \<le> 50
          \<and> length (filter is_section (drop 2 doc)) = 23
          \<and> last doc = Context [mrkdwn ''_+2 more events later this week not shown._'']"
    using doc p by auto
next
  note small = buildBlocks_budget[where rt = sample_platform and now = sample_now
      and chapterName = "''Metro''" and chapterUrl = "''https://example.org/all''"
      and events = sample_filtered and daysAhead = 7]
  have "\<forall>e\<in>set (take 23 sample_filtered). formattable sample_platform e"
    by (simp add: sample_filtered_def formattable_samples)
  with small header_dates_valid_sample obtain doc where doc: "buildBlocks sample_platform sample_now ''Metro''
      ''https://example.org/all'' sample_filtered 7 = Inr doc"
    by blast
  have l: "length sample_filtered \<le> 23" "sample_filtered \<noteq> []" "length sample_filtered = 2"
    by (simp_all add: sample_filtered_def)
  with small doc have p: "length doc \<le> 50" "filter is_context (drop 2 doc) = []"
    "list_all2 (\<lambda>e b. sectionBlock sample_platform e = Inr b) sample_filtered
       (filter is_section (drop 2 doc))"
    by simp_all
  from list_all2_lengthD[OF p(3)] l(3) have "length (filter is_section (drop 2 doc)) = 2" by simp
  with doc p show "\<exists>doc. buildBlocks sample_platform sample_now ''Metro'' ''https://example.org/all''
             sample_filtered 7 = Inr doc
          \<and> length doc \<le> 50
          \<and> filter is_context (drop 2 doc) = []
          \<and> length (filter is_section (drop 2 doc)) = 2"
    by auto
qed




text \<open>
  Claim C8. In the document of a non-empty list of filtered events, the section of the
  \<open>i\<close>-th visible event is block \<open>2 + 2 i\<close>, a divider follows every section but the last
  one, and the last block is never a divider: it is the section of the last event when
  there is no overflow, and the overflow notice otherwise.
\<close>

theorem buildBlocks_dividers:
  assumes ne: "events \<noteq> []"
    and doc: "buildBlocks rt now chapterName chapterUrl events daysAhead = Inr doc"
  shows "(\<forall>i<min (length events) 23. sectionBlock rt (events ! i) = Inr (doc ! (2 + 2 * i)))
       \<and> (\<forall>i. i + 1 < min (length events) 23 \<longrightarrow> doc ! (3 + 2 * i) = Divider)
       \<and> last doc \<noteq> Divider
       \<and> (length events \<le> 23 \<longrightarrow>
            length doc = 2 * length events + 1 \<and> sectionBlock rt (last events) = Inr (last doc))
       \<and> (23 < length events \<longrightarrow>
            length doc = 48 \<and> last doc = overflow_notice (length events - 23))"
proof -
  from buildBlocks_shape[OF ne doc] obtain secs where
    la: "list_all2 (\<lambda>e b. sectionBlock rt e = Inr b) (take 23 events) secs"
    and sne: "secs \<noteq> []"
    and d: "doc = [headerBlock chapterName,
          subtitleBlock (header_range rt now daysAhead) chapterUrl daysAhead]
         @ butlast (with_dividers secs)
         @ (if length events > 23 then [overflow_notice (length events - 23)] else [])"
    by blast
  have len: "length secs = min (length events) 23"
    using list_all2_lengthD[OF la] by simp
  have nth: "sectionBlock rt (events ! i) = Inr (secs ! i)" if i: "i < length secs" for i
  proof -
    from list_all2_nthD2[OF la i] have "sectionBlock rt (take 23 events ! i) = Inr (secs ! i)" .
    moreover have "i < 23" using i len by simp
    ultimately show ?thesis by simp
  qed
  have sec: "\<forall>s\<in>set secs. is_section s" using la by (rule sections_all_section)
  have a: "\<forall>i<min (length events) 23. sectionBlock rt (events ! i) = Inr (doc ! (2 + 2 * i))"
  proof (intro allI impI)
    fix i assume "i < min (length events) 23"
    then have i: "i < length secs" by (simp add: len)
    then have "2 * i < 2 * length secs - 1" by simp
    from doc_nth[OF sne this] have "doc ! (2 + 2 * i) = with_dividers secs ! (2 * i)"
      unfolding d .
    with with_dividers_nth_even[OF i] nth[OF i]
    show "sectionBlock rt (events ! i) = Inr (doc ! (2 + 2 * i))" by simp
  qed
  have b: "\<forall>i. i + 1 < min (length events) 23 \<longrightarrow> doc ! (3 + 2 * i) = Divider"
  proof (intro allI impI)
    fix i assume "i + 1 < min (length events) 23"
    then have i: "i + 1 < length secs" by (simp add: len)
    then have "2 * i + 1 < 2 * length secs - 1" by simp
    from doc_nth[OF sne this] have "doc ! (2 + (2 * i + 1)) = with_dividers secs ! (2 * i + 1)"
      unfolding d .
    moreover have "with_dividers secs ! (2 * i + 1) = Divider"
      using i by (intro with_dividers_nth_odd) simp
    moreover have "2 + (2 * i + 1) = 3 + 2 * i" by simp
    ultimately show "doc ! (3 + 2 * i) = Divider" by (simp only:)
  qed
  have bl: "butlast (with_dividers secs) \<noteq> []"
    using sne by (simp add: butlast_with_dividers_Nil_iff)
  have last_small: "length events \<le> 23 \<Longrightarrow> last doc = last secs"
    using bl by (simp add: d last_butlast_with_dividers[OF sne])
  have last_large: "23 < length events \<Longrightarrow> last doc = overflow_notice (length events - 23)"
    by (simp add: d)
  have "is_section (last secs)" using sec sne by simp
  then have c: "last doc \<noteq> Divider"
    using last_small last_large
    by (cases "23 < length events") (auto simp: is_section_def overflow_notice_def)
  have e: "length events \<le> 23 \<longrightarrow>
            length doc = 2 * length events + 1 \<and> sectionBlock rt (last events) = Inr (last doc)"
  proof
    assume le: "length events \<le> 23"
    then have l: "length secs = length events" by (simp add: len)
    have "length doc = 2 * length events + 1"
      using sne le l ne by (cases events) (simp_all add: d length_with_dividers)
    moreover have "last events = events ! (length secs - 1)"
      using ne l by (simp add: last_conv_nth)
    moreover have "last secs = secs ! (length secs - 1)"
      using sne by (simp add: last_conv_nth)
    moreover have "length secs - 1 < length secs" using sne by simp
    ultimately show "length doc = 2 * length events + 1
        \<and> sectionBlock rt (last events) = Inr (last doc)"
      using nth[of "length secs - 1"] last_small[OF le] by simp
  qed
  have f: "23 < length events \<longrightarrow>
            length doc = 48 \<and> last doc = overflow_notice (length events - 23)"
    using sne len last_large by (auto simp: d length_with_dividers)
  from a b c e f show ?thesis by blast
qed

theorem buildBlocks_dividers_witness:
  "\<exists>doc. buildBlocks sample_platform sample_now ''Metro'' ''https://example.org/all''
            sample_filtered 7 = Inr doc
        \<and> sample_filtered \<noteq> []
        \<and> sectionBlock sample_platform (sample_filtered ! 0) = Inr (doc ! 2)
        \<and> doc ! 3 = Divider
        \<and> sectionBlock sample_platform (sample_filtered ! 1) = Inr (doc ! 4)
        \<and> length doc = 5
        \<and> last doc \<noteq> Divider"
proof -
  have ne: "sample_filtered \<noteq> []" and len: "length sample_filtered = 2"
    by (simp_all add: sample_filtered_def)
  have "\<forall>e\<in>set (take 23 sample_filtered). formattable sample_platform e"
    by (simp add: sample_filtered_def formattable_samples)
  then obtain doc where doc: "buildBlocks sample_platform sample_now ''Metro''
      ''https://example.org/all'' sample_filtered 7 = Inr doc"
    using buildBlocks_ok_iff header_dates_valid_sample by blast
  note inst = buildBlocks_dividers[OF ne doc]
  have m: "(0::nat) < min (length sample_filtered) 23" "(1::nat) < min (length sample_filtered) 23"
    "(0::nat) + 1 < min (length sample_filtered) 23"
    by (simp_all add: len)
  from inst have a: "\<forall>i<min (length sample_filtered) 23.
      sectionBlock sample_platform (sample_filtered ! i) = Inr (doc ! (2 + 2 * i))"
    and b: "\<forall>i. i + 1 < min (length sample_filtered) 23 \<longrightarrow> doc ! (3 + 2 * i) = Divider"
    and c: "last doc \<noteq> Divider"
    and d: "length sample_filtered \<le> 23 \<longrightarrow> length doc = 2 * length sample_filtered + 1
        \<and> sectionBlock sample_platform (last sample_filtered) = Inr (last doc)"
    by blast+
  from a m(1) have "sectionBlock sample_platform (sample_filtered ! 0) = Inr (doc ! (2 + 2 * 0))"
    by blast
  then have s0: "sectionBlock sample_platform (sample_filtered ! 0) = Inr (doc ! 2)" by simp
  from a m(2) have "sectionBlock sample_platform (sample_filtered ! 1) = Inr (doc ! (2 + 2 * 1))"
    by blast
  then have s1: "sectionBlock sample_platform (sample_filtered ! 1) = Inr (doc ! 4)" by simp
  from b m(3) have "doc ! (3 + 2 * 0) = Divider" by blast
  then have d0: "doc ! 3 = Divider" by simp
  from d len have "length doc = 5" by simp
  with s0 s1 d0 c doc ne show ?thesis by blast
qed

text \<open>
  Claim C9. The section of a visible event has one line for each of its sessions, and the
  line of a session is the calendar mark and the time range, then the location segment,
  then the label segment. The location segment is present if and only if the type of the
  event, in lower case, is neither \<^verbatim>\<open>virtual\<close> nor \<^verbatim>\<open>online\<close> and the session has a location
  (its street address, or else its venue name); the label segment is present if and only
  if the type of the event, in lower case, is one of the known tags.
\<close>

theorem session_line_segments:
  assumes "buildBlocks rt now chapterName chapterUrl events daysAhead = Inr doc"
    and "i < length events" and "i < 23"
  shows "\<exists>lines. doc ! (2 + 2 * i) = Section (mrkdwn (title_link (events ! i) @ LF @ join LF lines))
           \<and> length lines = length (event_sessions (events ! i))
           \<and> (\<forall>j<length lines.
                 (\<exists>timeStr. formatDateRange rt
                              (Date_getTime rt (start_time (event_sessions (events ! i) ! j)))
                              (Date_getTime rt (end_time (event_sessions (events ! i) ! j)))
                              = Inr timeStr
                   \<and> lines ! j = CALENDAR @ '' *'' @ timeStr @ ''*''
                        @ location_segment rt (events ! i) (event_sessions (events ! i) ! j)
                        @ label_segment rt (events ! i))
                 \<and> (location_segment rt (events ! i) (event_sessions (events ! i) ! j) \<noteq> [] \<longleftrightarrow>
                      \<not> virtual_type (toLowerCase rt (event_type (events ! i)))
                      \<and> preferred_location (event_sessions (events ! i) ! j) \<noteq> None)
                 \<and> (label_segment rt (events ! i) \<noteq> [] \<longleftrightarrow>
                      toLowerCase rt (event_type (events ! i))
                        \<in> set [''in_person'', ''in-person'', ''virtual'', ''online'', ''hybrid'']))"
  using sectionBlock_lines[OF buildBlocks_section_nth[OF assms]]
    location_segment_iff[of rt "events ! i"] label_segment_iff[of rt "events ! i"]
  by simp

theorem session_line_segments_witness:
  "\<exists>doc lines. buildBlocks sample_platform sample_now ''Metro'' ''https://example.org/all''
            sample_filtered 7 = Inr doc
        \<and> doc ! 4 = Section (mrkdwn (title_link phonebank @ LF @ join LF lines))
        \<and> length lines = 1
        \<and> location_segment sample_platform phonebank wed = []
        \<and> label_segment sample_platform phonebank = ''   '' @ PERSONAL_COMPUTER @ '' Virtual''
        \<and> lines ! 0 = CALENDAR @ '' *Wed, Nov 4 '' @ MIDDLE_DOT @ '' 6:00 PM'' @ EN_DASH
             @ ''8:00 PM EST*   '' @ PERSONAL_COMPUTER @ '' Virtual''"
proof -
  have "\<forall>e\<in>set (take 23 sample_filtered). formattable sample_platform e"
    by (simp add: sample_filtered_def formattable_samples)
  then obtain doc where doc: "buildBlocks sample_platform sample_now ''Metro''
      ''https://example.org/all'' sample_filtered 7 = Inr doc"
    using buildBlocks_ok_iff header_dates_valid_sample by blast
  have i: "1 < length sample_filtered" "(1::nat) < 23" by (simp_all add: sample_filtered_def)
  have e: "sample_filtered ! 1 = phonebank" "event_sessions phonebank = [wed]"
    by (simp_all add: sample_filtered_def phonebank_def)
  from session_line_segments[OF doc i] obtain lines where
    l: "doc ! (2 + 2 * 1) = Section (mrkdwn (title_link phonebank @ LF @ join LF lines))"
      "length lines = 1"
    and "\<exists>timeStr. formatDateRange sample_platform (Date_getTime sample_platform (start_time wed))
             (Date_getTime sample_platform (end_time wed)) = Inr timeStr
         \<and> lines ! 0 = CALENDAR @ '' *'' @ timeStr @ ''*''
              @ location_segment sample_platform phonebank wed @ label_segment sample_platform phonebank"
    unfolding e by auto
  moreover have "formatDateRange sample_platform (Date_getTime sample_platform (start_time wed))
             (Date_getTime sample_platform (end_time wed))
           = Inr (''Wed, Nov 4 '' @ MIDDLE_DOT @ '' 6:00 PM'' @ EN_DASH @ ''8:00 PM EST'')"
    by (simp add: formatDateRange_def format_def replace_zone_def word_char_def
          white_space_1_def white_space_2_def white_space_3_def sample_defs)
  moreover have "location_segment sample_platform phonebank wed = []"
    "label_segment sample_platform phonebank = ''   '' @ PERSONAL_COMPUTER @ '' Virtual''"
    by (simp_all add: location_segment_def label_segment_def preferred_location_def
          virtual_type_def known_type_label_def sample_defs)
  ultimately show ?thesis using doc by auto
qed

text \<open>
  Claim C4, as amended. \<^verbatim>\<open>buildBlocks\<close> reads the clock: the result depends on its four
  arguments and on the instant \<open>now\<close>, and on \<open>now\<close> only through the date range of the
  subtitle. Two calls with the same arguments whose date ranges agree (the same text, or
  the same error) return the same result. When a call at \<open>now\<close> returns a document and the
  date range at \<open>now'\<close> can be formatted, the call at \<open>now'\<close> returns the same document
  but for the subtitle block; when the date range at \<open>now'\<close> cannot be formatted, the call
  at \<open>now'\<close> raises the error of the date range, whatever the events.
\<close>

theorem buildBlocks_clock:
  "(formatHeaderDateRange rt (new_Date now) daysAhead
      = formatHeaderDateRange rt (new_Date now') daysAhead \<longrightarrow>
      buildBlocks rt now chapterName chapterUrl events daysAhead
        = buildBlocks rt now' chapterName chapterUrl events daysAhead)
   \<and> (\<forall>doc dateRange.
         buildBlocks rt now chapterName chapterUrl events daysAhead = Inr doc
         \<and> formatHeaderDateRange rt (new_Date now') daysAhead = Inr dateRange \<longrightarrow>
         buildBlocks rt now' chapterName chapterUrl events daysAhead
           = Inr (doc[1 := subtitleBlock dateRange chapterUrl daysAhead]))
   \<and> (\<forall>err. formatHeaderDateRange rt (new_Date now') daysAhead = Inl err \<longrightarrow>
         buildBlocks rt now' chapterName chapterUrl events daysAhead = Inl err)"
proof -
  have same: "formatHeaderDateRange rt (new_Date now) daysAhead
      = formatHeaderDateRange rt (new_Date now') daysAhead \<longrightarrow>
      buildBlocks rt now chapterName chapterUrl events daysAhead
        = buildBlocks rt now' chapterName chapterUrl events daysAhead"
    by (simp add: buildBlocks_def)
  have subtitle: "\<forall>doc dateRange.
         buildBlocks rt now chapterName chapterUrl events daysAhead = Inr doc
         \<and> formatHeaderDateRange rt (new_Date now') daysAhead = Inr dateRange \<longrightarrow>
         buildBlocks rt now' chapterName chapterUrl events daysAhead
           = Inr (doc[1 := subtitleBlock dateRange chapterUrl daysAhead])"
  proof (intro allI impI)
    fix doc dateRange
    assume "buildBlocks rt now chapterName chapterUrl events daysAhead = Inr doc
         \<and> formatHeaderDateRange rt (new_Date now') daysAhead = Inr dateRange"
    then have doc: "buildBlocks rt now chapterName chapterUrl events daysAhead = Inr doc"
      and range': "formatHeaderDateRange rt (new_Date now') daysAhead = Inr dateRange"
      by simp_all
    from doc obtain r where range: "formatHeaderDateRange rt (new_Date now) daysAhead = Inr r"
      by (cases "formatHeaderDateRange rt (new_Date now) daysAhead")
         (simp_all add: buildBlocks_def)
    show "buildBlocks rt now' chapterName chapterUrl events daysAhead
           = Inr (doc[1 := subtitleBlock dateRange chapterUrl daysAhead])"
    proof (cases "events = []")
      case True
      with doc show ?thesis by (auto simp: buildBlocks_def range range')
    next
      case False
      from doc obtain secs where ok: "map_ok (sectionBlock rt) (take 23 events) = Inr secs"
        and d: "doc = [headerBlock chapterName, subtitleBlock r chapterUrl daysAhead]
               @ butlast (with_dividers secs)
               @ (if length events > 23 then [overflow_notice (length events - 23)] else [])"
        unfolding buildBlocks_nonempty[OF False] range and_then_eq_Inr by auto
      show ?thesis unfolding buildBlocks_nonempty[OF False] range' ok d by simp
    qed
  qed
  have raises: "\<forall>err. formatHeaderDateRange rt (new_Date now') daysAhead = Inl err \<longrightarrow>
         buildBlocks rt now' chapterName chapterUrl events daysAhead = Inl err"
    by (simp add: buildBlocks_def)
  show ?thesis by (rule conjI[OF same conjI[OF subtitle raises]])
qed

theorem buildBlocks_clock_witness:
  "formatHeaderDateRange sample_platform (new_Date 1793793600000) 7
     = formatHeaderDateRange sample_platform (new_Date 1793833200000) 7
   \<and> buildBlocks sample_platform 1793793600000 ''Metro'' ''https://example.org/all'' sample_filtered 7
     = buildBlocks sample_platform 1793833200000 ''Metro'' ''https://example.org/all'' sample_filtered 7
   \<and> (\<exists>doc. buildBlocks sample_platform 1793707200000 ''Metro'' ''https://example.org/all''
                sample_filtered 7 = Inr doc
            \<and> buildBlocks sample_platform 1793793600000 ''Metro'' ''https://example.org/all''
                sample_filtered 7
              = Inr (doc[1 := subtitleBlock (''Nov 4 '' @ EN_DASH @ '' Nov 11'')
                                 ''https://example.org/all'' 7]))
   \<and> (\<exists>dateRange. formatHeaderDateRange sample_platform (new_Date 1793707200000) 99979239
                       = Inr dateRange)
   \<and> formatHeaderDateRange sample_platform (new_Date 1793793600000) 99979239 = Inl RangeError
   \<and> buildBlocks sample_platform 1793793600000 ''Metro'' ''https://example.org/all''
        sample_filtered 99979239 = Inl RangeError"
proof -
  have same: "formatHeaderDateRange sample_platform (new_Date 1793793600000) 7
     = formatHeaderDateRange sample_platform (new_Date 1793833200000) 7"
    and next_day: "formatHeaderDateRange sample_platform (new_Date 1793793600000) 7
       = Inr (''Nov 4 '' @ EN_DASH @ '' Nov 11'')"
    by (simp_all add: formatHeaderDateRange_def new_Date_def format_def sample_defs)
  have far: "\<exists>dateRange. formatHeaderDateRange sample_platform (new_Date 1793707200000) 99979239
                       = Inr dateRange"
    and too_far: "formatHeaderDateRange sample_platform (new_Date 1793793600000) 99979239
                    = Inl RangeError"
    by (simp_all add: formatHeaderDateRange_def new_Date_def format_def)
  from header_dates_valid_sample formattable_samples
  obtain doc where doc: "buildBlocks sample_platform 1793707200000 ''Metro''
      ''https://example.org/all'' sample_filtered 7 = Inr doc"
    using buildBlocks_ok_iff[of sample_platform sample_now "''Metro''" "''https://example.org/all''"
        sample_filtered 7]
    by (auto simp: sample_now_def sample_filtered_def)
  from same buildBlocks_clock[where rt = sample_platform and now = 1793793600000
      and now' = 1793833200000 and daysAhead = 7 and events = sample_filtered
      and chapterName = "''Metro''" and chapterUrl = "''https://example.org/all''"]
  have a: "buildBlocks sample_platform 1793793600000 ''Metro'' ''https://example.org/all''
             sample_filtered 7
           = buildBlocks sample_platform 1793833200000 ''Metro'' ''https://example.org/all''
               sample_filtered 7"
    by blast
  from doc next_day buildBlocks_clock[where rt = sample_platform and now = 1793707200000
      and now' = 1793793600000 and daysAhead = 7 and events = sample_filtered
      and chapterName = "''Metro''" and chapterUrl = "''https://example.org/all''"]
  have b: "buildBlocks sample_platform 1793793600000 ''Metro'' ''https://example.org/all''
                sample_filtered 7
              = Inr (doc[1 := subtitleBlock (''Nov 4 '' @ EN_DASH @ '' Nov 11'')
                                 ''https://example.org/all'' 7])"
    by blast
  from too_far buildBlocks_clock[where rt = sample_platform and now = 1793707200000
      and now' = 1793793600000 and daysAhead = 99979239 and events = sample_filtered
      and chapterName = "''Metro''" and chapterUrl = "''https://example.org/all''"]
  have c: "buildBlocks sample_platform 1793793600000 ''Metro'' ''https://example.org/all''
        sample_filtered 99979239 = Inl RangeError"
    by blast
  from same a doc b far too_far c show ?thesis by blast
qed

text \<open>
  The claim as it was stated, that the four arguments alone determine the document, fails:
  the same call on 3 November and on 4 November 2026 gives two subtitles.
\<close>

theorem buildBlocks_clock_counterexample:
  "buildBlocks sample_platform 1793707200000 ''Metro'' ''https://example.org/all'' [] 7
     \<noteq> buildBlocks sample_platform 1793793600000 ''Metro'' ''https://example.org/all'' [] 7"
  by (simp add: buildBlocks_def subtitleBlock_def formatHeaderDateRange_def new_Date_def
        format_def sample_defs digits.simps digit_char_def)

section \<open>Retrieval of the events\<close>

lemma page_events_Some:
  assumes "page_events r = Some evs"
  obtains resp d where "r = Inr resp" "ok resp" "json_data resp = Inr d"
    "evs = (case d of None \<Rightarrow> [] | Some es \<Rightarrow> es)"
  using assms by (auto simp: page_events_def split: sum.splits if_splits)

lemma fetch_pages_step:
  assumes "page_events (fetch env (requests w) (events_request env c 100 q)) = Some evs"
  shows "fetch_pages env c q acc w =
     (if length evs < 100
      then Some (Inr (acc @ evs), w\<lparr>requests := requests w @ [events_request env c 100 q]\<rparr>)
      else fetch_pages env c (q + 1) (acc @ evs)
             (w\<lparr>requests := requests w @ [events_request env c 100 q]\<rparr>))"
proof -
  from assms obtain resp d where r: "fetch env (requests w) (events_request env c 100 q) = Inr resp"
    "ok resp" "json_data resp = Inr d" "evs = (case d of None \<Rightarrow> [] | Some es \<Rightarrow> es)"
    by (rule page_events_Some)
  show ?thesis
    by (subst fetch_pages.simps) (simp add: Let_def r)
qed

lemma fetch_pages_first_short:
  assumes pages: "\<forall>p. q \<le> p \<and> p \<le> m \<longrightarrow>
        page_events (fetch env (h @ map (events_request env c 100) [1..<p])
                       (events_request env c 100 p)) = Some (pages p)"
    and full: "\<forall>p. q \<le> p \<and> p < m \<longrightarrow> 100 \<le> length (pages p)"
    and short: "length (pages m) < 100"
    and qm: "1 \<le> q" "q \<le> m"
    and w: "requests w = h @ map (events_request env c 100) [1..<q]"
  shows "fetch_pages env c q acc w =
           Some (Inr (acc @ concat (map pages [q..<Suc m])),
                 w\<lparr>requests := h @ map (events_request env c 100) [1..<Suc m]\<rparr>)"
  using assms
proof (induction "m - q" arbitrary: q acc w)
  case 0
  then have eq: "q = m" by simp
  from 0 have "page_events (fetch env (requests w) (events_request env c 100 m)) = Some (pages m)"
    by (simp add: eq)
  from fetch_pages_step[OF this] 0 show ?case
    by (simp add: eq)
next
  case (Suc n)
  then have lt: "q < m" by simp
  from Suc.prems have pe: "page_events (fetch env (requests w) (events_request env c 100 q))
      = Some (pages q)"
    by simp
  from Suc.prems lt have fq: "\<not> length (pages q) < 100" by (simp add: not_less)
  let ?w = "w\<lparr>requests := requests w @ [events_request env c 100 q]\<rparr>"
  have step: "fetch_pages env c q acc w = fetch_pages env c (q + 1) (acc @ pages q) ?w"
    using fetch_pages_step[OF pe] fq by simp
  have rw: "requests ?w = h @ map (events_request env c 100) [1..<q + 1]"
    using Suc.prems by simp
  have "fetch_pages env c (q + 1) (acc @ pages q) ?w =
          Some (Inr ((acc @ pages q) @ concat (map pages [q + 1..<Suc m])),
                ?w\<lparr>requests := h @ map (events_request env c 100) [1..<Suc m]\<rparr>)"
  proof (rule Suc.hyps(1))
    show "n = m - (q + 1)" using Suc.hyps(2) by simp
    show "\<forall>p. q + 1 \<le> p \<and> p \<le> m \<longrightarrow>
        page_events (fetch env (h @ map (events_request env c 100) [1..<p])
                       (events_request env c 100 p)) = Some (pages p)"
      using Suc.prems(1) by simp
    show "\<forall>p. q + 1 \<le> p \<and> p < m \<longrightarrow> 100 \<le> length (pages p)"
      using Suc.prems(2) by simp
    show "length (pages m) < 100" by (rule Suc.prems(3))
    show "1 \<le> q + 1" by simp
    show "q + 1 \<le> m" using lt by simp
    show "requests ?w = h @ map (events_request env c 100) [1..<q + 1]" by (rule rw)
  qed
  moreover have "[q..<Suc m] = q # [q + 1..<Suc m]"
    using lt by (simp add: upt_conv_Cons)
  ultimately show ?case by (simp add: step)
qed

lemma page_requests_upt:
  "page_requests env c (p - Suc 0) = map (events_request env c 100) [Suc 0..<p]"
  by (cases p) (simp_all add: page_requests_def)

lemma fetchAllEvents_first_short:
  assumes pages: "\<forall>p. 1 \<le> p \<and> p \<le> m \<longrightarrow> page_events (page_response env c w p) = Some (pages p)"
    and full: "\<forall>p. 1 \<le> p \<and> p < m \<longrightarrow> 100 \<le> length (pages p)"
    and short: "length (pages m) < 100"
    and m: "1 \<le> m"
  shows "fetchAllEvents env c w =
           Some (Inr (concat (map pages [1..<Suc m])),
                 w\<lparr>requests := requests w @ page_requests env c m\<rparr>)"
proof -
  have "fetch_pages env c 1 [] w =
           Some (Inr ([] @ concat (map pages [1..<Suc m])),
                 w\<lparr>requests := requests w @ map (events_request env c 100) [1..<Suc m]\<rparr>)"
  proof (rule fetch_pages_first_short)
    show "\<forall>p. 1 \<le> p \<and> p \<le> m \<longrightarrow>
        page_events (fetch env (requests w @ map (events_request env c 100) [1..<p])
                       (events_request env c 100 p)) = Some (pages p)"
      using pages by (simp add: page_response_def page_requests_upt)
    show "\<forall>p. 1 \<le> p \<and> p < m \<longrightarrow> 100 \<le> length (pages p)" by (rule full)
    show "length (pages m) < 100" by (rule short)
    show "(1::nat) \<le> 1" by simp
    show "1 \<le> m" by (rule m)
    show "requests w = requests w @ map (events_request env c 100) [1..<1]" by simp
  qed
  then show ?thesis by (simp add: fetchAllEvents_def page_requests_def)
qed

text \<open>
  Claim C2. If the responses to the requests for the pages 1 to \<open>k\<close> are pages and page \<open>k\<close>
  has fewer than 100 events, then \<^verbatim>\<open>fetchAllEvents\<close> terminates: it returns the events of the
  pages 1 to \<open>m\<close>, in page order, where \<open>m\<close> is the first page with fewer than 100 events,
  and has issued the requests for exactly these pages. In the boundary case where the
  pages 1 to \<open>n\<close> hold exactly 100 events each and page \<open>n + 1\<close> is empty, it issues
  \<open>n + 1\<close> requests and returns the events of the pages 1 to \<open>n\<close>.
\<close>

theorem fetchAllEvents_terminates:
  "(1 \<le> k
      \<and> (\<forall>p. 1 \<le> p \<and> p \<le> k \<longrightarrow> page_events (page_response env c w p) = Some (pages p))
      \<and> length (pages k) < 100 \<longrightarrow>
    (\<exists>m. 1 \<le> m \<and> m \<le> k \<and> length (pages m) < 100
        \<and> (\<forall>p. 1 \<le> p \<and> p < m \<longrightarrow> 100 \<le> length (pages p))
        \<and> fetchAllEvents env c w =
            Some (Inr (concat (map pages [1..<Suc m])),
                  w\<lparr>requests := requests w @ page_requests env c m\<rparr>)))
   \<and> (1 \<le> n
      \<and> (\<forall>p. 1 \<le> p \<and> p \<le> n \<longrightarrow>
             page_events (page_response env c w p) = Some (pages p) \<and> length (pages p) = 100)
      \<and> page_events (page_response env c w (Suc n)) = Some [] \<longrightarrow>
    fetchAllEvents env c w =
      Some (Inr (concat (map pages [1..<Suc n])),
            w\<lparr>requests := requests w @ page_requests env c (Suc n)\<rparr>))"
proof (intro conjI impI)
  assume a: "1 \<le> k
      \<and> (\<forall>p. 1 \<le> p \<and> p \<le> k \<longrightarrow> page_events (page_response env c w p) = Some (pages p))
      \<and> length (pages k) < 100"
  define m where "m = (LEAST p. 1 \<le> p \<and> length (pages p) < 100)"
  from a have ex: "1 \<le> k \<and> length (pages k) < 100" by simp
  have m1: "1 \<le> m \<and> length (pages m) < 100"
    unfolding m_def using ex by (rule LeastI)
  have mk: "m \<le> k" unfolding m_def using ex by (rule Least_le)
  have full: "\<forall>p. 1 \<le> p \<and> p < m \<longrightarrow> 100 \<le> length (pages p)"
  proof (intro allI impI)
    fix p assume p: "1 \<le> p \<and> p < m"
    then have "\<not> (1 \<le> p \<and> length (pages p) < 100)"
      unfolding m_def using not_less_Least by blast
    with p show "100 \<le> length (pages p)" by simp
  qed
  have "\<forall>p. 1 \<le> p \<and> p \<le> m \<longrightarrow> page_events (page_response env c w p) = Some (pages p)"
    using a mk by simp
  from fetchAllEvents_first_short[OF this full] m1
  have "fetchAllEvents env c w =
            Some (Inr (concat (map pages [1..<Suc m])),
                  w\<lparr>requests := requests w @ page_requests env c m\<rparr>)"
    by simp
  with m1 mk full show "\<exists>m. 1 \<le> m \<and> m \<le> k \<and> length (pages m) < 100
        \<and> (\<forall>p. 1 \<le> p \<and> p < m \<longrightarrow> 100 \<le> length (pages p))
        \<and> fetchAllEvents env c w =
            Some (Inr (concat (map pages [1..<Suc m])),
                  w\<lparr>requests := requests w @ page_requests env c m\<rparr>)"
    by blast
next
  assume b: "1 \<le> n
      \<and> (\<forall>p. 1 \<le> p \<and> p \<le> n \<longrightarrow>
             page_events (page_response env c w p) = Some (pages p) \<and> length (pages p) = 100)
      \<and> page_events (page_response env c w (Suc n)) = Some []"
  let ?pages = "\<lambda>p. if p = Suc n then [] else pages p"
  have "fetchAllEvents env c w =
           Some (Inr (concat (map ?pages [1..<Suc (Suc n)])),
                 w\<lparr>requests := requests w @ page_requests env c (Suc n)\<rparr>)"
  proof (rule fetchAllEvents_first_short)
    show "\<forall>p. 1 \<le> p \<and> p \<le> Suc n \<longrightarrow>
        page_events (page_response env c w p) = Some (?pages p)"
      using b by (auto simp: le_Suc_eq)
    show "\<forall>p. 1 \<le> p \<and> p < Suc n \<longrightarrow> 100 \<le> length (?pages p)"
      using b by auto
    show "length (?pages (Suc n)) < 100" by simp
    show "1 \<le> Suc n" by simp
  qed
  moreover have "map ?pages [1..<Suc n] = map pages [1..<Suc n]" by simp
  then have "concat (map ?pages [1..<Suc (Suc n)]) = concat (map pages [1..<Suc n])"
    by (simp only: upt_Suc_append[of 1 "Suc n"] map_append concat_append) simp
  ultimately show "fetchAllEvents env c w =
      Some (Inr (concat (map pages [1..<Suc n])),
            w\<lparr>requests := requests w @ page_requests env c (Suc n)\<rparr>)"
    by (simp only:)
qed

lemmas environment_defs = sample_environment_def sample_pages_def sample_mappings_def
  initial_world_def

theorem fetchAllEvents_terminates_witness:
  "fetchAllEvents sample_environment 3 initial_world =
     Some (Inr (replicate 100 phonebank),
           initial_world\<lparr>requests := page_requests sample_environment 3 2\<rparr>)
   \<and> length (page_requests sample_environment 3 2) = 2
   \<and> page_events (page_response sample_environment 3 initial_world 1) = Some (replicate 100 phonebank)
   \<and> page_events (page_response sample_environment 3 initial_world 2) = Some []"
proof -
  let ?pages = "\<lambda>p::nat. replicate 100 phonebank"
  have p1: "page_events (page_response sample_environment 3 initial_world 1)
              = Some (replicate 100 phonebank)"
    by (simp add: page_events_def page_response_def page_requests_def events_request_def
          String_def digits.simps digit_char_def environment_defs)
  have p2: "page_events (page_response sample_environment 3 initial_world 2) = Some []"
    by (simp add: page_events_def page_response_def page_requests_def events_request_def
          String_def digits.simps digit_char_def environment_defs)
  have h: "1 \<le> (1::nat)
      \<and> (\<forall>p. 1 \<le> p \<and> p \<le> 1 \<longrightarrow>
             page_events (page_response sample_environment 3 initial_world p) = Some (?pages p)
             \<and> length (?pages p) = 100)
      \<and> page_events (page_response sample_environment 3 initial_world (Suc 1)) = Some []"
    using p1 p2 by (auto simp: le_Suc_eq numeral_2_eq_2)
  from fetchAllEvents_terminates[where n = 1 and pages = ?pages and env = sample_environment
      and c = 3 and w = initial_world] h
  have "fetchAllEvents sample_environment 3 initial_world =
      Some (Inr (concat (map ?pages [1..<Suc 1])),
            initial_world\<lparr>requests := requests initial_world @ page_requests sample_environment 3 (Suc 1)\<rparr>)"
    by blast
  moreover have "requests initial_world = []" by (simp add: initial_world_def)
  moreover have "length (page_requests sample_environment 3 2) = 2"
    by (simp add: page_requests_def)
  ultimately show ?thesis using p1 p2 by (simp add: numeral_2_eq_2)
qed

section \<open>The driver\<close>



lemma fetching_line_is [simp]:
  "is_fetching_line (fetching_line m)" "\<not> is_failure_line (fetching_line m)"
  by (simp_all add: is_fetching_line_def is_failure_line_def fetching_line_def)

lemma failure_line_is [simp]:
  "\<not> is_fetching_line (failure_line m e)" "is_failure_line (failure_line m e)"
  by (simp_all add: is_fetching_line_def is_failure_line_def failure_line_def)

lemma arrow_line_is [simp]:
  "\<not> is_fetching_line (Log (''  '' @ s))" "\<not> is_failure_line (Log s)"
  by (simp_all add: is_fetching_line_def is_failure_line_def)

















section \<open>The store: what filterAndSortEvents writes and what it shares\<close>

lemma unchanged_refl: "unchanged h h"
  by (simp add: unchanged_def)

lemma unchanged_trans: "unchanged h h' \<Longrightarrow> unchanged h' h'' \<Longrightarrow> unchanged h h''"
  by (auto simp: unchanged_def)

lemma unchanged_append: "unchanged h (h @ xs)"
  by (simp add: unchanged_def nth_append)

lemma unchanged_update: "unchanged h h' \<Longrightarrow> length h \<le> a \<Longrightarrow> unchanged h (h'[a := x])"
  by (auto simp: unchanged_def)

lemma unchanged_length: "unchanged h h' \<Longrightarrow> length h \<le> length h'"
  by (simp add: unchanged_def)

lemma unchanged_lookup: "unchanged h h' \<Longrightarrow> lookup h r = Some x \<Longrightarrow> lookup h' r = Some x"
  by (auto simp: unchanged_def lookup_def split: if_splits)

lemma unchanged_reads:
  assumes "unchanged h h'"
  shows "event_array h r = Some rs \<Longrightarrow> event_array h' r = Some rs"
    and "event_object h r = Some ev \<Longrightarrow> event_object h' r = Some ev"
    and "session_array h r = Some ss \<Longrightarrow> session_array h' r = Some ss"
    and "string_array h r = Some ts \<Longrightarrow> string_array h' r = Some ts"
  using unchanged_lookup[OF assms, of r]
  by (auto simp: event_array_def event_object_def session_array_def string_array_def
        split: option.splits object.splits)

lemma read_in_store:
  "event_array h r = Some rs \<Longrightarrow> r < length h"
  "event_object h r = Some ev \<Longrightarrow> r < length h"
  "session_array h r = Some ss \<Longrightarrow> r < length h"
  "string_array h r = Some ts \<Longrightarrow> r < length h"
  by (auto simp: event_array_def event_object_def session_array_def string_array_def lookup_def
        split: option.splits object.splits if_splits)

lemma lookup_append_new [simp]: "lookup (h @ [x]) (length h) = Some x"
  by (simp add: lookup_def)

lemma lookup_append2_new [simp]:
  "lookup (h @ [x, y]) (length h) = Some x" "lookup (h @ [x, y]) (Suc (length h)) = Some y"
  by (simp_all add: lookup_def nth_append)

lemma copy_event_Some:
  "copy_event rt now cutoff r h = Some (e, h') \<longleftrightarrow>
     (\<exists>ev ss. event_object h r = Some ev \<and> session_array h (obj_event_sessions ev) = Some ss
        \<and> e = Suc (length h)
        \<and> h' = h @ [SessionArray (kept_sessions rt now cutoff ss),
                     Event (ev\<lparr>obj_event_sessions := length h\<rparr>)])"
  by (auto simp: copy_event_def alloc_def sort_sessions_def session_array_def kept_sessions_def
        split: option.splits)

lemma copy_event_None:
  "copy_event rt now cutoff r h = None \<longleftrightarrow>
     (\<forall>ev. event_object h r = Some ev \<longrightarrow> session_array h (obj_event_sessions ev) = None)"
  by (auto simp: copy_event_def alloc_def sort_sessions_def session_array_def
        split: option.splits)

lemma copied_at_mono:
  "copied_at rt now cutoff h1 h' r e \<Longrightarrow> unchanged h h1 \<Longrightarrow> copied_at rt now cutoff h h' r e"
  unfolding copied_at_def by (blast intro: unchanged_trans)

lemma Array_map_copies:
  assumes "Array_map (copy_event rt now cutoff) rs h = Some (rs', h')"
  shows "unchanged h h' \<and> list_all2 (copied_at rt now cutoff h h') rs rs'"
  using assms
proof (induction rs arbitrary: h rs' h')
  case Nil
  then show ?case by (simp add: unchanged_refl)
next
  case (Cons r rs)
  from Cons.prems obtain e h1 where c: "copy_event rt now cutoff r h = Some (e, h1)"
    by (cases "copy_event rt now cutoff r h") auto
  from Cons.prems c obtain es where m: "Array_map (copy_event rt now cutoff) rs h1 = Some (es, h')"
    and rs': "rs' = e # es"
    by (cases "Array_map (copy_event rt now cutoff) rs h1") auto
  from c obtain ev ss where r: "event_object h r = Some ev"
    "session_array h (obj_event_sessions ev) = Some ss" "e = Suc (length h)"
    "h1 = h @ [SessionArray (kept_sessions rt now cutoff ss),
               Event (ev\<lparr>obj_event_sessions := length h\<rparr>)]"
    by (auto simp: copy_event_Some)
  have u1: "unchanged h h1" by (simp add: r(4) unchanged_append)
  from Cons.IH[OF m] have u2: "unchanged h1 h'"
    and l2: "list_all2 (copied_at rt now cutoff h1 h') rs es" by simp_all
  have a: "copied_at rt now cutoff h h' r e"
    unfolding copied_at_def using r u2 unchanged_refl by blast
  have b: "list_all2 (copied_at rt now cutoff h h') rs es"
    using l2 by (rule list_all2_mono) (rule copied_at_mono[OF _ u1])
  from a b u1 u2 rs' show ?case by (auto intro: unchanged_trans)
qed

lemma copied_at_object:
  assumes c: "copied_at rt now cutoff h h' r e" and ev: "event_object h r = Some ev"
  shows "\<exists>s ss. fresh h e \<and> fresh h s
           \<and> event_object h' e = Some (ev\<lparr>obj_event_sessions := s\<rparr>)
           \<and> session_array h' s = Some (kept_sessions rt now cutoff ss)
           \<and> (\<forall>ss0. session_array h (obj_event_sessions ev) = Some ss0 \<longrightarrow> ss = ss0)"
proof -
  from c obtain h1 ev1 ss where h1: "unchanged h h1" "event_object h1 r = Some ev1"
    "session_array h1 (obj_event_sessions ev1) = Some ss" "e = Suc (length h1)"
    and u: "unchanged (h1 @ [SessionArray (kept_sessions rt now cutoff ss),
                            Event (ev1\<lparr>obj_event_sessions := length h1\<rparr>)]) h'"
    by (auto simp: copied_at_def)
  from unchanged_reads(2)[OF h1(1) ev] h1(2) have ev1: "ev1 = ev" by simp
  let ?h2 = "h1 @ [SessionArray (kept_sessions rt now cutoff ss),
                   Event (ev\<lparr>obj_event_sessions := length h1\<rparr>)]"
  have "event_object ?h2 e = Some (ev\<lparr>obj_event_sessions := length h1\<rparr>)"
    by (simp add: event_object_def h1(4))
  then have e: "event_object h' e = Some (ev\<lparr>obj_event_sessions := length h1\<rparr>)"
    using unchanged_reads(2)[OF u] ev1 by simp
  have "session_array ?h2 (length h1) = Some (kept_sessions rt now cutoff ss)"
    by (simp add: session_array_def)
  then have s: "session_array h' (length h1) = Some (kept_sessions rt now cutoff ss)"
    using unchanged_reads(3)[OF u] ev1 by simp
  have f: "fresh h e" "fresh h (length h1)"
    using unchanged_length[OF h1(1)] h1(4) by (simp_all add: fresh_def)
  have "\<forall>ss0. session_array h (obj_event_sessions ev) = Some ss0 \<longrightarrow> ss = ss0"
    using unchanged_reads(3)[OF h1(1)] h1(3) ev1 by auto
  with e s f show ?thesis by blast
qed

lemma Array_filter_subset: "Array_filter p xs = Some ys \<Longrightarrow> set ys \<subseteq> set xs"
proof (induction xs arbitrary: ys)
  case Nil
  then show ?case by simp
next
  case (Cons x xs)
  then show ?case by (auto split: option.splits if_splits)
qed

lemma Array_filter_holds:
  "Array_filter p xs = Some ys \<Longrightarrow> y \<in> set ys \<Longrightarrow> p y = Some True"
proof (induction xs arbitrary: ys)
  case Nil
  then show ?case by simp
next
  case (Cons x xs)
  then show ?case by (auto split: option.splits if_splits)
qed

lemma has_page_and_no_exclusion_True:
  assumes "has_page_and_no_exclusion h r = Some True"
  obtains ev ts where "event_object h r = Some ev" "string_array h (obj_tags ev) = Some ts"
  using assms by (auto simp: has_page_and_no_exclusion_def split: option.splits if_splits)

lemma filterAndSortEvents_store_Some:
  assumes "filterAndSortEvents_store rt now r daysAhead h = Some (r', h')"
  obtains rs rs1 rs2 h2 rs3 where
    "event_array h r = Some rs"
    "Array_filter (has_page_and_no_exclusion h) rs = Some rs1"
    "Array_map (copy_event rt now (now + daysAhead * 24 * 60 * 60 * 1000)) rs1 (h @ [EventArray rs1])
       = Some (rs2, h2)"
    "Array_filter (has_sessions (h2 @ [EventArray rs2])) rs2 = Some rs3"
    "r' = Suc (length h2)"
    "h' = h2 @ [EventArray rs2,
                EventArray (Array_sort
                  (\<lambda>a b. minus_number
                     (first_start_at rt (h2 @ [EventArray rs2, EventArray rs3]) a)
                     (first_start_at rt (h2 @ [EventArray rs2, EventArray rs3]) b)) rs3)]"
  using assms
  by (auto simp: filterAndSortEvents_store_def alloc_def Let_def list_update_append
        split: option.splits prod.splits)

lemma result_events_all:
  assumes "event_array h' r' = Some es" "\<forall>e\<in>set es. \<exists>ev. event_object h' e = Some ev"
  shows "map fst (result_events h' r') = es"
proof -
  have "map fst (concat (map (\<lambda>e. case event_object h' e of None \<Rightarrow> [] | Some ev \<Rightarrow> [(e, ev)]) xs)) = xs"
    if "\<forall>e\<in>set xs. \<exists>ev. event_object h' e = Some ev" for xs
    using that by (induction xs) auto
  with assms show ?thesis by (simp add: result_events_def)
qed

lemma result_events_mem:
  "(e, ev) \<in> set (result_events h' r') \<longleftrightarrow>
     (\<exists>es. event_array h' r' = Some es \<and> e \<in> set es \<and> event_object h' e = Some ev)"
  by (cases "event_array h' r'") (auto simp: result_events_def split: option.splits)

lemma list_all2_right_mem:
  "list_all2 P xs ys \<Longrightarrow> y \<in> set ys \<Longrightarrow> \<exists>x\<in>set xs. P x y"
  by (induction rule: list_all2_induct) auto

lemma store_frame:
  assumes run: "filterAndSortEvents_store rt now r daysAhead h = Some (r', h')"
  shows "unchanged h h'"
    and "fresh h r'"
    and "\<exists>es. event_array h' r' = Some es \<and> map fst (result_events h' r') = es"
    and "\<forall>(e, ev)\<in>set (result_events h' r').
           fresh h e \<and> fresh h (obj_event_sessions ev) \<and> \<not> fresh h (obj_tags ev)
           \<and> (\<exists>ss. session_array h' (obj_event_sessions ev) = Some ss)
           \<and> (\<exists>rs r0 ev0. event_array h r = Some rs \<and> r0 \<in> set rs \<and> event_object h r0 = Some ev0
                 \<and> ev = ev0\<lparr>obj_event_sessions := obj_event_sessions ev\<rparr>)"
proof -
  let ?cutoff = "now + daysAhead * 24 * 60 * 60 * 1000"
  from run obtain rs rs1 rs2 h2 rs3 where
    rs: "event_array h r = Some rs"
    and f1: "Array_filter (has_page_and_no_exclusion h) rs = Some rs1"
    and m: "Array_map (copy_event rt now ?cutoff) rs1 (h @ [EventArray rs1]) = Some (rs2, h2)"
    and f2: "Array_filter (has_sessions (h2 @ [EventArray rs2])) rs2 = Some rs3"
    and r': "r' = Suc (length h2)"
    and h': "h' = h2 @ [EventArray rs2,
                EventArray (Array_sort
                  (\<lambda>a b. minus_number
                     (first_start_at rt (h2 @ [EventArray rs2, EventArray rs3]) a)
                     (first_start_at rt (h2 @ [EventArray rs2, EventArray rs3]) b)) rs3)]"
    by (rule filterAndSortEvents_store_Some)
  let ?h1 = "h @ [EventArray rs1]"
  let ?sorted = "Array_sort
                  (\<lambda>a b. minus_number
                     (first_start_at rt (h2 @ [EventArray rs2, EventArray rs3]) a)
                     (first_start_at rt (h2 @ [EventArray rs2, EventArray rs3]) b)) rs3"
  from Array_map_copies[OF m] have u12: "unchanged ?h1 h2"
    and cp: "list_all2 (copied_at rt now ?cutoff ?h1 h2) rs1 rs2" by simp_all
  have u01: "unchanged h ?h1" by (rule unchanged_append)
  have u2': "unchanged h2 h'" by (simp add: h' unchanged_append)
  have u02: "unchanged h h2" by (rule unchanged_trans[OF u01 u12])
  show u: "unchanged h h'" by (rule unchanged_trans[OF u02 u2'])
  show "fresh h r'" using unchanged_length[OF u02] by (simp add: fresh_def r')
  have arr: "event_array h' r' = Some ?sorted"
    by (simp add: event_array_def h' r')
  have sub: "set ?sorted \<subseteq> set rs2"
    using Array_filter_subset[OF f2] by (simp add: set_Array_sort)
  have each: "\<exists>r0 ev0 s ss. r0 \<in> set rs \<and> event_object h r0 = Some ev0
                \<and> (\<exists>ts. string_array h (obj_tags ev0) = Some ts)
                \<and> fresh h e \<and> fresh h s
                \<and> event_object h' e = Some (ev0\<lparr>obj_event_sessions := s\<rparr>)
                \<and> session_array h' s = Some ss"
    if "e \<in> set rs2" for e
  proof -
    from list_all2_right_mem[OF cp that] obtain r0 where
      r0: "r0 \<in> set rs1" "copied_at rt now ?cutoff ?h1 h2 r0 e"
      by blast
    from Array_filter_holds[OF f1 r0(1)] obtain ev0 ts where
      ev0: "event_object h r0 = Some ev0" "string_array h (obj_tags ev0) = Some ts"
      by (rule has_page_and_no_exclusion_True)
    from copied_at_object[OF r0(2) unchanged_reads(2)[OF u01 ev0(1)]] obtain s ss where
      c: "fresh ?h1 e" "fresh ?h1 s" "event_object h2 e = Some (ev0\<lparr>obj_event_sessions := s\<rparr>)"
        "session_array h2 s = Some ss"
      by blast
    have "fresh h e" "fresh h s" using c(1,2) by (simp_all add: fresh_def)
    moreover have "event_object h' e = Some (ev0\<lparr>obj_event_sessions := s\<rparr>)"
      by (rule unchanged_reads(2)[OF u2' c(3)])
    moreover have "session_array h' s = Some ss"
      by (rule unchanged_reads(3)[OF u2' c(4)])
    moreover have "r0 \<in> set rs" using Array_filter_subset[OF f1] r0(1) by auto
    ultimately show ?thesis using ev0 by blast
  qed
  have "\<forall>e\<in>set ?sorted. \<exists>ev. event_object h' e = Some ev"
    using each sub by blast
  from result_events_all[OF arr this] arr
  show "\<exists>es. event_array h' r' = Some es \<and> map fst (result_events h' r') = es" by blast
  show "\<forall>(e, ev)\<in>set (result_events h' r').
           fresh h e \<and> fresh h (obj_event_sessions ev) \<and> \<not> fresh h (obj_tags ev)
           \<and> (\<exists>ss. session_array h' (obj_event_sessions ev) = Some ss)
           \<and> (\<exists>rs r0 ev0. event_array h r = Some rs \<and> r0 \<in> set rs \<and> event_object h r0 = Some ev0
                 \<and> ev = ev0\<lparr>obj_event_sessions := obj_event_sessions ev\<rparr>)"
  proof (clarify)
    fix e ev assume "(e, ev) \<in> set (result_events h' r')"
    then have e: "e \<in> set ?sorted" and ev: "event_object h' e = Some ev"
      using arr by (auto simp: result_events_mem)
    from each[of e] e sub obtain r0 ev0 s ss ts where
      x: "r0 \<in> set rs" "event_object h r0 = Some ev0" "string_array h (obj_tags ev0) = Some ts"
        "fresh h e" "fresh h s" "event_object h' e = Some (ev0\<lparr>obj_event_sessions := s\<rparr>)"
        "session_array h' s = Some ss"
      by blast
    from x(6) ev have eq: "ev = ev0\<lparr>obj_event_sessions := s\<rparr>" by simp
    have "\<not> fresh h (obj_tags ev)"
      using read_in_store(4)[OF x(3)] by (simp add: eq fresh_def)
    moreover have "ev = ev0\<lparr>obj_event_sessions := obj_event_sessions ev\<rparr>" by (simp add: eq)
    ultimately show "fresh h e \<and> fresh h (obj_event_sessions ev) \<and> \<not> fresh h (obj_tags ev)
           \<and> (\<exists>ss. session_array h' (obj_event_sessions ev) = Some ss)
           \<and> (\<exists>rs r0 ev0. event_array h r = Some rs \<and> r0 \<in> set rs \<and> event_object h r0 = Some ev0
                 \<and> ev = ev0\<lparr>obj_event_sessions := obj_event_sessions ev\<rparr>)"
      using x rs eq by auto
  qed
qed

lemma those_map_Some: "those (map f xs) = Some ys \<longleftrightarrow> list_all2 (\<lambda>x y. f x = Some y) xs ys"
proof (induction xs arbitrary: ys)
  case Nil
  then show ?case by auto
next
  case (Cons x xs)
  show ?case
  proof (cases ys)
    case Nil
    then show ?thesis by (auto split: option.splits)
  next
    case (Cons y ys')
    then show ?thesis using Cons.IH[of ys'] by (auto split: option.splits)
  qed
qed

lemma Array_filter_rel:
  assumes "list_all2 R rs evs" and "\<And>r e. R r e \<Longrightarrow> p r = Some (q e)"
  shows "\<exists>rs1. Array_filter p rs = Some rs1 \<and> list_all2 R rs1 (filter q evs)"
  using assms(1)
proof (induction rule: list_all2_induct)
  case Nil
  then show ?case by simp
next
  case (Cons r rs e evs)
  then obtain rs1 where "Array_filter p rs = Some rs1" "list_all2 R rs1 (filter q evs)" by blast
  with Cons.hyps(1) assms(2)[OF Cons.hyps(1)] show ?case by simp
qed

lemma insert_sorted_rel:
  assumes "\<And>x y x' y'. R x y \<Longrightarrow> R x' y' \<Longrightarrow> c1 x x' = c2 y y'"
    and "R x y" "list_all2 R xs ys"
  shows "list_all2 R (insert_sorted c1 x xs) (insert_sorted c2 y ys)"
  using assms(3)
proof (induction rule: list_all2_induct)
  case Nil
  then show ?case using assms(2) by simp
next
  case (Cons x' xs y' ys)
  have "SortCompare c1 x x' = SortCompare c2 y y'"
    using assms(1)[OF assms(2) Cons.hyps(1)] by (simp add: SortCompare_def)
  then show ?case using Cons assms(2) by simp
qed

lemma Array_sort_rel:
  assumes "\<And>x y x' y'. R x y \<Longrightarrow> R x' y' \<Longrightarrow> c1 x x' = c2 y y'"
    and "list_all2 R xs ys"
  shows "list_all2 R (Array_sort c1 xs) (Array_sort c2 ys)"
  using assms(2)
proof (induction rule: list_all2_induct)
  case Nil
  then show ?case by (simp add: Array_sort_def)
next
  case (Cons x xs y ys)
  have "list_all2 R (insert_sorted c1 x (Array_sort c1 xs)) (insert_sorted c2 y (Array_sort c2 ys))"
    by (rule insert_sorted_rel[OF assms(1) Cons.hyps(1) Cons.IH])
  then show ?case by (simp add: Array_sort_def)
qed

lemma event_at_Some:
  "event_at h r = Some e \<longleftrightarrow>
     (\<exists>ev ss ts. event_object h r = Some ev \<and> session_array h (obj_event_sessions ev) = Some ss
        \<and> string_array h (obj_tags ev) = Some ts
        \<and> e = \<lparr> event_id = obj_id ev, title = obj_title ev, event_type = obj_event_type ev,
                 event_sessions = ss, event_page_url = obj_event_page_url ev, tags = ts \<rparr>)"
  by (auto simp: event_at_def split: option.splits)

lemma event_at_mono: "unchanged h h' \<Longrightarrow> event_at h r = Some e \<Longrightarrow> event_at h' r = Some e"
  unfolding event_at_Some using unchanged_reads(2,3,4) by blast

lemma events_rel_mono:
  "unchanged h h' \<Longrightarrow> list_all2 (\<lambda>r e. event_at h r = Some e) rs evs
     \<Longrightarrow> list_all2 (\<lambda>r e. event_at h' r = Some e) rs evs"
  by (auto simp: list_all2_conv_all_nth intro: event_at_mono)

lemma has_page_and_no_exclusion_at:
  "event_at h r = Some e \<Longrightarrow>
     has_page_and_no_exclusion h r
       = Some (truthy (event_page_url e) \<and> \<not> (''slack-exclude'' \<in> set (tags e)))"
  by (auto simp: event_at_Some has_page_and_no_exclusion_def)

lemma has_sessions_at:
  "event_at h r = Some e \<Longrightarrow> has_sessions h r = Some (length (event_sessions e) > 0)"
  by (auto simp: event_at_Some has_sessions_def)

lemma first_start_at_eq:
  "event_at h r = Some e \<Longrightarrow>
     first_start_at rt h r
       = (case event_sessions e of [] \<Rightarrow> None | s # _ \<Rightarrow> Date_getTime rt (start_time s))"
  by (auto simp: event_at_Some first_start_at_def split: list.splits)

lemma copy_event_at:
  assumes "event_at h r = Some e"
  shows "\<exists>c h1. copy_event rt now cutoff r h = Some (c, h1) \<and> unchanged h h1
           \<and> event_at h1 c = Some (e\<lparr>event_sessions := kept_sessions rt now cutoff (event_sessions e)\<rparr>)"
proof -
  from assms obtain ev ss ts where r: "event_object h r = Some ev"
    "session_array h (obj_event_sessions ev) = Some ss" "string_array h (obj_tags ev) = Some ts"
    and e: "e = \<lparr> event_id = obj_id ev, title = obj_title ev, event_type = obj_event_type ev,
                 event_sessions = ss, event_page_url = obj_event_page_url ev, tags = ts \<rparr>"
    by (auto simp: event_at_Some)
  let ?h1 = "h @ [SessionArray (kept_sessions rt now cutoff ss),
                  Event (ev\<lparr>obj_event_sessions := length h\<rparr>)]"
  have c: "copy_event rt now cutoff r h = Some (Suc (length h), ?h1)"
    using r by (simp add: copy_event_Some)
  have u: "unchanged h ?h1" by (rule unchanged_append)
  have "event_object ?h1 (Suc (length h)) = Some (ev\<lparr>obj_event_sessions := length h\<rparr>)"
    by (simp add: event_object_def)
  moreover have "session_array ?h1 (length h) = Some (kept_sessions rt now cutoff ss)"
    by (simp add: session_array_def)
  moreover have "string_array ?h1 (obj_tags ev) = Some ts"
    by (rule unchanged_reads(4)[OF u r(3)])
  ultimately have "event_at ?h1 (Suc (length h))
      = Some (e\<lparr>event_sessions := kept_sessions rt now cutoff (event_sessions e)\<rparr>)"
    by (simp add: event_at_Some e)
  with c u show ?thesis by blast
qed

lemma Array_map_at:
  assumes "list_all2 (\<lambda>r e. event_at h r = Some e) rs evs"
  shows "\<exists>rs2 h2. Array_map (copy_event rt now cutoff) rs h = Some (rs2, h2) \<and> unchanged h h2
           \<and> list_all2 (\<lambda>r e. event_at h2 r = Some e) rs2
                (map (\<lambda>e. e\<lparr>event_sessions := kept_sessions rt now cutoff (event_sessions e)\<rparr>) evs)"
  using assms
proof (induction rs arbitrary: h evs)
  case Nil
  then show ?case by (simp add: unchanged_refl)
next
  case (Cons r rs)
  from Cons.prems obtain e evs' where evs: "evs = e # evs'" and e: "event_at h r = Some e"
    and rest: "list_all2 (\<lambda>r e. event_at h r = Some e) rs evs'"
    by (cases evs) auto
  from copy_event_at[OF e] obtain c h1 where c: "copy_event rt now cutoff r h = Some (c, h1)"
    and u1: "unchanged h h1"
    and c1: "event_at h1 c = Some (e\<lparr>event_sessions := kept_sessions rt now cutoff (event_sessions e)\<rparr>)"
    by blast
  from Cons.IH[OF events_rel_mono[OF u1 rest]] obtain rs2 h2 where
    m: "Array_map (copy_event rt now cutoff) rs h1 = Some (rs2, h2)" and u2: "unchanged h1 h2"
    and l: "list_all2 (\<lambda>r e. event_at h2 r = Some e) rs2
                (map (\<lambda>e. e\<lparr>event_sessions := kept_sessions rt now cutoff (event_sessions e)\<rparr>) evs')"
    by blast
  have "Array_map (copy_event rt now cutoff) (r # rs) h = Some (c # rs2, h2)"
    by (simp add: c m)
  moreover have "unchanged h h2" by (rule unchanged_trans[OF u1 u2])
  moreover have "event_at h2 c = Some (e\<lparr>event_sessions := kept_sessions rt now cutoff (event_sessions e)\<rparr>)"
    by (rule event_at_mono[OF u2 c1])
  ultimately show ?case using l evs by auto
qed

lemma store_refines:
  assumes "events_at h r = Some evs"
  shows "\<exists>r' h'. filterAndSortEvents_store rt now r daysAhead h = Some (r', h')
           \<and> events_at h' r' = Some (filterAndSortEvents rt now evs daysAhead)"
proof -
  let ?cutoff = "now + daysAhead * 24 * 60 * 60 * 1000"
  let ?copy = "\<lambda>e. e\<lparr>event_sessions := kept_sessions rt now ?cutoff (event_sessions e)\<rparr>"
  let ?p1 = "\<lambda>e. truthy (event_page_url e) \<and> \<not> (''slack-exclude'' \<in> set (tags e))"
  let ?p2 = "\<lambda>e. length (event_sessions e) > 0"
  let ?key = "\<lambda>e. case event_sessions e of [] \<Rightarrow> None | s # _ \<Rightarrow> Date_getTime rt (start_time s)"
  from assms obtain rs where rs: "event_array h r = Some rs"
    and l0: "list_all2 (\<lambda>r e. event_at h r = Some e) rs evs"
    by (auto simp: events_at_def those_map_Some split: option.splits)
  from Array_filter_rel[where R = "\<lambda>r e. event_at h r = Some e"
      and p = "has_page_and_no_exclusion h" and q = ?p1, OF l0 has_page_and_no_exclusion_at]
  obtain rs1 where
    f1: "Array_filter (has_page_and_no_exclusion h) rs = Some rs1"
    and l1: "list_all2 (\<lambda>r e. event_at h r = Some e) rs1 (filter ?p1 evs)"
    by blast
  let ?h1 = "h @ [EventArray rs1]"
  have u01: "unchanged h ?h1" by (rule unchanged_append)
  from Array_map_at[OF events_rel_mono[OF u01 l1]] obtain rs2 h2 where
    m: "Array_map (copy_event rt now ?cutoff) rs1 ?h1 = Some (rs2, h2)"
    and u12: "unchanged ?h1 h2"
    and l2: "list_all2 (\<lambda>r e. event_at h2 r = Some e) rs2 (map ?copy (filter ?p1 evs))"
    by blast
  let ?h3 = "h2 @ [EventArray rs2]"
  have u23: "unchanged h2 ?h3" by (rule unchanged_append)
  have l3: "list_all2 (\<lambda>r e. event_at ?h3 r = Some e) rs2 (map ?copy (filter ?p1 evs))"
    by (rule events_rel_mono[OF u23 l2])
  from Array_filter_rel[where R = "\<lambda>r e. event_at ?h3 r = Some e"
      and p = "has_sessions ?h3" and q = ?p2, OF l3 has_sessions_at]
  obtain rs3 where
    f2: "Array_filter (has_sessions ?h3) rs2 = Some rs3"
    and l4: "list_all2 (\<lambda>r e. event_at ?h3 r = Some e) rs3 (filter ?p2 (map ?copy (filter ?p1 evs)))"
    by blast
  let ?h4 = "h2 @ [EventArray rs2, EventArray rs3]"
  let ?sorted = "Array_sort (\<lambda>a b. minus_number (first_start_at rt ?h4 a) (first_start_at rt ?h4 b)) rs3"
  let ?h' = "h2 @ [EventArray rs2, EventArray ?sorted]"
  have u34: "unchanged ?h3 ?h4" using unchanged_append[of ?h3 "[EventArray rs3]"] by simp
  have u3': "unchanged ?h3 ?h'" using unchanged_append[of ?h3 "[EventArray ?sorted]"] by simp
  have m': "Array_map (copy_event rt now (now + 86400000 * daysAhead)) rs1 ?h1 = Some (rs2, h2)"
    using m by simp
  have run: "filterAndSortEvents_store rt now r daysAhead h = Some (Suc (length h2), ?h')"
    by (simp add: filterAndSortEvents_store_def alloc_def Let_def rs f1 m' f2 list_update_append)
  have cmp: "minus_number (first_start_at rt ?h4 x) (first_start_at rt ?h4 x')
             = minus_number (?key y) (?key y')"
    if "event_at ?h3 x = Some y" "event_at ?h3 x' = Some y'" for x y x' y'
    using first_start_at_eq[OF event_at_mono[OF u34 that(1)]]
      first_start_at_eq[OF event_at_mono[OF u34 that(2)]] by simp
  have "list_all2 (\<lambda>r e. event_at ?h3 r = Some e) ?sorted
          (Array_sort (\<lambda>a b. minus_number (?key a) (?key b))
             (filter ?p2 (map ?copy (filter ?p1 evs))))"
    by (rule Array_sort_rel[where R = "\<lambda>r e. event_at ?h3 r = Some e", OF cmp l4])
  then have "list_all2 (\<lambda>r e. event_at ?h' r = Some e) ?sorted
          (Array_sort (\<lambda>a b. minus_number (?key a) (?key b))
             (filter ?p2 (map ?copy (filter ?p1 evs))))"
    by (rule events_rel_mono[OF u3'])
  moreover have "event_array ?h' (Suc (length h2)) = Some ?sorted"
    by (simp add: event_array_def)
  moreover have "filterAndSortEvents rt now evs daysAhead =
      Array_sort (\<lambda>a b. minus_number (?key a) (?key b)) (filter ?p2 (map ?copy (filter ?p1 evs)))"
    by (simp add: filterAndSortEvents_def Let_def kept_sessions_def)
  ultimately have "events_at ?h' (Suc (length h2)) = Some (filterAndSortEvents rt now evs daysAhead)"
    by (simp add: events_at_def those_map_Some)
  with run show ?thesis by blast
qed

lemma events_at_mono:
  assumes "unchanged h h'" "events_at h r = Some evs"
  shows "events_at h' r = Some evs"
proof -
  from assms(2) obtain rs where rs: "event_array h r = Some rs"
    and l: "list_all2 (\<lambda>r e. event_at h r = Some e) rs evs"
    by (auto simp: events_at_def those_map_Some split: option.splits)
  from unchanged_reads(1)[OF assms(1) rs] events_rel_mono[OF assms(1) l]
  show ?thesis by (simp add: events_at_def those_map_Some)
qed

lemmas store_defs = filterAndSortEvents_store_def alloc_def lookup_def event_array_def
  event_object_def session_array_def string_array_def has_page_and_no_exclusion_def
  copy_event_def sort_sessions_def has_sessions_def first_start_at_def
  Array_sort_def SortCompare_def minus_number_def truthy_def

lemma sample_store_run:
  "filterAndSortEvents_store sample_platform sample_now 3 7 sample_store =
     Some (8, sample_store @
        [EventArray [2],
         SessionArray [wed, fri],
         Event \<lparr> obj_id = 10, obj_title = ''Canvass'', obj_event_type = ''in_person'',
                 obj_event_sessions = 5, obj_event_page_url = Some ''https://example.org/canvass'',
                 obj_tags = 0 \<rparr>,
         EventArray [6],
         EventArray [6]])"
  by (simp add: store_defs sample_store_def sample_defs)

lemma sample_store_built_from:
  "built_from (sample_store @
        [EventArray [2],
         SessionArray [wed, fri],
         Event \<lparr> obj_id = 10, obj_title = ''Canvass'', obj_event_type = ''in_person'',
                 obj_event_sessions = 5, obj_event_page_url = Some ''https://example.org/canvass'',
                 obj_tags = 0 \<rparr>,
         EventArray [6],
         EventArray [6]]) 8 = [8, 6, 5, 0]"
  by (simp add: built_from_def result_events_def event_array_def event_object_def lookup_def
        sample_store_def)

text \<open>
  Claim C10, as amended. \<^verbatim>\<open>filterAndSortEvents\<close> never writes to its input: after a
  call, every object of the store it started in (the input list, the event objects in it,
  their arrays of sessions and of tags) is unchanged. The result list, every event object
  in it and the array of sessions of every such object are freshly created; the array of
  tags of a result event is not: a result event is the copy of an input event with a new
  array of sessions, and keeps the reference to the array of tags of that input event.
  Over a store in which the input stands for the events \<open>evs\<close>, the call returns, the
  result stands for the events that the function over values returns, and the input
  still stands for \<open>evs\<close>.
\<close>

theorem filterAndSortEvents_store_frame:
  "(\<forall>r' h'. filterAndSortEvents_store rt now r daysAhead h = Some (r', h') \<longrightarrow>
       unchanged h h' \<and> fresh h r'
     \<and> (\<exists>es. event_array h' r' = Some es \<and> map fst (result_events h' r') = es)
     \<and> (\<forall>(e, ev)\<in>set (result_events h' r').
           fresh h e \<and> fresh h (obj_event_sessions ev) \<and> \<not> fresh h (obj_tags ev)
           \<and> (\<exists>ss. session_array h' (obj_event_sessions ev) = Some ss)
           \<and> (\<exists>rs r0 ev0. event_array h r = Some rs \<and> r0 \<in> set rs \<and> event_object h r0 = Some ev0
                 \<and> ev = ev0\<lparr>obj_event_sessions := obj_event_sessions ev\<rparr>)))
   \<and> (\<forall>evs. events_at h r = Some evs \<longrightarrow>
         (\<exists>r' h'. filterAndSortEvents_store rt now r daysAhead h = Some (r', h')
            \<and> events_at h' r' = Some (filterAndSortEvents rt now evs daysAhead)
            \<and> events_at h' r = Some evs))"
proof (intro conjI allI impI)
  fix r' h' assume run: "filterAndSortEvents_store rt now r daysAhead h = Some (r', h')"
  show "unchanged h h'" by (rule store_frame(1)[OF run])
  show "fresh h r'" by (rule store_frame(2)[OF run])
  show "\<exists>es. event_array h' r' = Some es \<and> map fst (result_events h' r') = es"
    by (rule store_frame(3)[OF run])
  show "\<forall>(e, ev)\<in>set (result_events h' r').
           fresh h e \<and> fresh h (obj_event_sessions ev) \<and> \<not> fresh h (obj_tags ev)
           \<and> (\<exists>ss. session_array h' (obj_event_sessions ev) = Some ss)
           \<and> (\<exists>rs r0 ev0. event_array h r = Some rs \<and> r0 \<in> set rs \<and> event_object h r0 = Some ev0
                 \<and> ev = ev0\<lparr>obj_event_sessions := obj_event_sessions ev\<rparr>)"
    by (rule store_frame(4)[OF run])
next
  fix evs assume evs: "events_at h r = Some evs"
  from store_refines[OF evs] obtain r' h' where
    run: "filterAndSortEvents_store rt now r daysAhead h = Some (r', h')"
    and res: "events_at h' r' = Some (filterAndSortEvents rt now evs daysAhead)"
    by blast
  from events_at_mono[OF store_frame(1)[OF run] evs] run res
  show "\<exists>r' h'. filterAndSortEvents_store rt now r daysAhead h = Some (r', h')
            \<and> events_at h' r' = Some (filterAndSortEvents rt now evs daysAhead)
            \<and> events_at h' r = Some evs"
    by blast
qed

theorem filterAndSortEvents_store_frame_witness:
  "\<exists>h'. filterAndSortEvents_store sample_platform sample_now 3 7 sample_store = Some (8, h')
        \<and> unchanged sample_store h' \<and> fresh sample_store 8
        \<and> events_at sample_store 3 = Some [canvass]
        \<and> events_at h' 3 = Some [canvass]
        \<and> events_at h' 8 = Some (filterAndSortEvents sample_platform sample_now [canvass] 7)
        \<and> built_from h' 8 = [8, 6, 5, 0]"
proof -
  note inst = filterAndSortEvents_store_frame[where rt = sample_platform and now = sample_now
      and r = 3 and daysAhead = 7 and h = sample_store]
  have evs: "events_at sample_store 3 = Some [canvass]"
    by (simp add: events_at_def event_at_def event_array_def event_object_def session_array_def
          string_array_def lookup_def sample_store_def canvass_def)
  let ?h' = "sample_store @
        [EventArray [2],
         SessionArray [wed, fri],
         Event \<lparr> obj_id = 10, obj_title = ''Canvass'', obj_event_type = ''in_person'',
                 obj_event_sessions = 5, obj_event_page_url = Some ''https://example.org/canvass'',
                 obj_tags = 0 \<rparr>,
         EventArray [6],
         EventArray [6]]"
  have run: "filterAndSortEvents_store sample_platform sample_now 3 7 sample_store = Some (8, ?h')"
    by (rule sample_store_run)
  from inst run have a: "unchanged sample_store ?h'" "fresh sample_store 8" by blast+
  from inst evs run have b: "events_at ?h' 8 = Some (filterAndSortEvents sample_platform sample_now [canvass] 7)"
    "events_at ?h' 3 = Some [canvass]"
    by auto
  from run a b evs sample_store_built_from show ?thesis by blast
qed

text \<open>
  The claim as it was stated, that the result is built entirely from freshly created arrays
  and event objects, fails: in the sample store the result event holds the array of tags
  of the input event, at reference 0.
\<close>

theorem filterAndSortEvents_store_frame_counterexample:
  "map_option (\<lambda>(r', h'). list_all (fresh sample_store) (built_from h' r'))
     (filterAndSortEvents_store sample_platform sample_now 3 7 sample_store) = Some False"
  by (simp add: sample_store_run sample_store_built_from fresh_def) (simp add: sample_store_def)

end
